theory Spec2Isabelle
  imports
    Main
    "HOL-Library.Word"
    "HOL-Library.Char_ord"
    "HOL-Library.List_Lexorder"
    "HOL-Library.Multiset"
begin

section \<open>DokuMini: the local store, the account handlers and the document handlers\<close>

text \<open>
  The repository holds two variants of one React component: \<^verbatim>\<open>src/src/App.js\<close> and
  \<^verbatim>\<open>src/unnamed/part_000\<close>. Where the two agree, one definition stands for both; where
  they differ, the definition taken from \<^verbatim>\<open>part_000\<close> carries the suffix \<open>_part0\<close>.

  Conventions of the embedding:
  \<^item> a JavaScript string is a \<^typ>\<open>string\<close> whose characters are read as the code points
    U+0000 to U+00FF;
  \<^item> an \<^verbatim>\<open>ArrayBuffer\<close> is a list of bytes;
  \<^item> \<^verbatim>\<open>uploadDate\<close> is kept as the time value (milliseconds) that
    \<^verbatim>\<open>new Date(doc.uploadDate)\<close> denotes, the only way the code reads the field;
  \<^item> a property that may be missing from an object is an \<open>option\<close>;
  \<^item> the database opens and every request succeeds unless it violates a key constraint;
  \<^item> component state that no modelled decision reads (loading flags, the website name, the
    timer that clears a message) is left out.
\<close>

subsection \<open>Records of the two object stores\<close>

type_synonym byte = "8 word"

record user =
  u_id :: string
  u_email :: string
  passwordHash :: string

text \<open>The object \<^verbatim>\<open>{ id, email }\<close> that login builds, keeps in state and in localStorage.\<close>

record session =
  s_id :: string
  s_email :: string

text \<open>\<^verbatim>\<open>newDoc\<close> of \<^verbatim>\<open>handleUploadDocument\<close>: a document before the store assigns its key.\<close>

record newDoc =
  n_userId :: string
  n_folder :: string
  n_fileName :: string
  n_originalFileName :: string
  n_uploadDate :: int
  n_fileData :: "byte list option"
  n_mimeType :: string
  n_fileSize :: "nat option"

record document =
  d_id :: nat
  userId :: string
  folder :: string
  fileName :: string
  originalFileName :: string
  uploadDate :: int
  fileData :: "byte list option"
  mimeType :: string
  fileSize :: "nat option"

text \<open>\<^verbatim>\<open>{ ...newDoc, id: docId }\<close>, also what \<^verbatim>\<open>store.add\<close> writes with the generated key.\<close>

definition withId :: "newDoc \<Rightarrow> nat \<Rightarrow> document" where
  "withId n k =
     \<lparr>d_id = k, userId = n_userId n, folder = n_folder n, fileName = n_fileName n,
      originalFileName = n_originalFileName n, uploadDate = n_uploadDate n,
      fileData = n_fileData n, mimeType = n_mimeType n, fileSize = n_fileSize n\<rparr>"

subsection \<open>The IndexedDB database\<close>

text \<open>
  \<^verbatim>\<open>users\<close> is keyed by \<^verbatim>\<open>id\<close>; \<^verbatim>\<open>documents\<close> is keyed by \<^verbatim>\<open>id\<close> with a key generator.
  The documents are held in key order, the order in which an index returns records of equal
  index key. \<open>requests\<close> records every request the utility functions issue, oldest first:
  \<open>ReqAdd\<close>, \<open>ReqPut\<close> and \<open>ReqDelete\<close> are the writes.
\<close>

datatype request =
  ReqGet string
  | ReqAdd string
  | ReqPut string
  | ReqDelete string
  | ReqGetAll string string

text \<open>The one failure of the store the handlers can meet is \<^verbatim>\<open>store.add\<close> on a key in
  use. The text of \<^verbatim>\<open>error.message\<close> is the browser's; \<open>error_message\<close> writes the name of the
  exception in its place, and nothing below depends on it.\<close>

datatype db_error = ConstraintError

definition error_message :: "db_error \<Rightarrow> string" where
  "error_message e = (case e of ConstraintError \<Rightarrow> ''ConstraintError'')"

record db =
  userStore :: "string \<rightharpoonup> user"
  docStore :: "document list"
  keyGen :: nat
  requests :: "request list"

definition USER_STORE :: string where "USER_STORE = ''users''"
definition DOC_STORE :: string where "DOC_STORE = ''documents''"

text \<open>\<^verbatim>\<open>store.put\<close> and \<^verbatim>\<open>store.add\<close> on the key-ordered documents: replace the record of
  the same key, or insert at the key's place.\<close>

fun putRecord :: "document \<Rightarrow> document list \<Rightarrow> document list" where
  "putRecord d [] = [d]"
| "putRecord d (x # xs) =
     (if d_id d = d_id x then d # xs
      else if d_id d < d_id x then d # x # xs
      else x # putRecord d xs)"

definition getItem :: "string \<Rightarrow> db \<Rightarrow> db \<times> user option" where
  "getItem key d = (d\<lparr>requests := requests d @ [ReqGet USER_STORE]\<rparr>, userStore d key)"

text \<open>\<^verbatim>\<open>store.add\<close> on the users store fails when the key is taken; the request is issued
  either way.\<close>

definition addItem :: "user \<Rightarrow> db \<Rightarrow> db \<times> db_error option" where
  "addItem item d =
     (case userStore d (u_id item) of
        Some _ \<Rightarrow> (d\<lparr>requests := requests d @ [ReqAdd USER_STORE]\<rparr>, Some ConstraintError)
      | None \<Rightarrow>
          (d\<lparr>userStore := (userStore d)(u_id item \<mapsto> item),
             requests := requests d @ [ReqAdd USER_STORE]\<rparr>, None))"

text \<open>\<^verbatim>\<open>store.add\<close> on the documents store: the record has no \<^verbatim>\<open>id\<close> yet, the key
  generator supplies it. The generator is above every key in use (it starts at 1, and a
  \<^verbatim>\<open>put\<close> moves it past the key it writes), so the add does not meet an existing key.\<close>

definition addItem_doc :: "newDoc \<Rightarrow> db \<Rightarrow> db \<times> nat" where
  "addItem_doc item d =
     (let k = keyGen d in
      (d\<lparr>docStore := putRecord (withId item k) (docStore d),
         keyGen := k + 1,
         requests := requests d @ [ReqAdd DOC_STORE]\<rparr>, k))"

definition updateItem :: "document \<Rightarrow> db \<Rightarrow> db" where
  "updateItem item d =
     d\<lparr>docStore := putRecord item (docStore d),
       keyGen := (if keyGen d \<le> d_id item then d_id item + 1 else keyGen d),
       requests := requests d @ [ReqPut DOC_STORE]\<rparr>"

definition deleteItem :: "nat \<Rightarrow> db \<Rightarrow> db" where
  "deleteItem key d =
     d\<lparr>docStore := filter (\<lambda>x. d_id x \<noteq> key) (docStore d),
       requests := requests d @ [ReqDelete DOC_STORE]\<rparr>"

text \<open>\<^verbatim>\<open>getAllItemsByIndex(DOC_STORE, 'userId', IDBKeyRange.only(uid))\<close> and
  \<^verbatim>\<open>getAllItemsByIndex(DOC_STORE, 'userIdAndFolder', IDBKeyRange.only([uid, f]))\<close>.\<close>

definition getAllByUserId :: "string \<Rightarrow> db \<Rightarrow> db \<times> document list" where
  "getAllByUserId uid d =
     (d\<lparr>requests := requests d @ [ReqGetAll DOC_STORE ''userId'']\<rparr>,
      filter (\<lambda>x. userId x = uid) (docStore d))"

definition getAllByUserIdAndFolder :: "string \<Rightarrow> string \<Rightarrow> db \<Rightarrow> db \<times> document list" where
  "getAllByUserIdAndFolder uid f d =
     (d\<lparr>requests := requests d @ [ReqGetAll DOC_STORE ''userIdAndFolder'']\<rparr>,
      filter (\<lambda>x. userId x = uid \<and> folder x = f) (docStore d))"

subsection \<open>Password hashing\<close>

text \<open>\<^verbatim>\<open>new TextEncoder().encode(message)\<close> on code points below U+0100.\<close>

definition utf8 :: "string \<Rightarrow> byte list" where
  "utf8 s =
     concat (map (\<lambda>c. let n = (of_char c :: nat) in
                    if n < 128 then [of_nat n]
                    else [of_nat (192 + n div 64), of_nat (128 + n mod 64)]) s)"

definition hexDigit :: "nat \<Rightarrow> char" where
  "hexDigit n = (''0123456789abcdef'') ! (n mod 16)"

text \<open>\<^verbatim>\<open>b.toString(16).padStart(2, '0')\<close>\<close>

definition hex2 :: "byte \<Rightarrow> string" where
  "hex2 b = [hexDigit (unat b div 16), hexDigit (unat b mod 16)]"

text \<open>\<^verbatim>\<open>crypto.subtle.digest('SHA-256', _)\<close> belongs to the platform: it is the parameter
  \<open>digest\<close> of everything that hashes.\<close>

definition sha256 :: "(byte list \<Rightarrow> byte list) \<Rightarrow> string \<Rightarrow> string" where
  "sha256 digest message = concat (map hex2 (digest (utf8 message)))"

subsection \<open>Numbers\<close>

text \<open>The exact logarithm rounded down: the number of times \<open>n\<close> can be divided by \<open>k\<close>
  before it falls below \<open>k\<close>.\<close>

function floorLog :: "nat \<Rightarrow> nat \<Rightarrow> nat" where
  "floorLog k n = (if k < 2 \<or> n < k then 0 else Suc (floorLog k (n div k)))"
  by pat_completeness auto
termination
  by (relation "measure (\<lambda>(k, n). n)") auto

declare floorLog.simps [simp del]

text \<open>
  A JavaScript number is a double. The byte totals are sums of non-negative integers: such a
  number is a natural number that a double holds, or \<^verbatim>\<open>Infinity\<close>. A double holds every
  integer up to \<open>2 ^ 53\<close>; a larger one is rounded to 53 significant bits, to the nearest
  and, of two equally near ones, to the even one.
\<close>

datatype jsNumber = Num nat | Infinity

definition roundToDouble :: "nat \<Rightarrow> nat" where
  "roundToDouble n =
     (if n < 2 ^ 53 then n
      else
        (let e = floorLog 2 n - 52; q = n div 2 ^ e; r = n mod 2 ^ e; h = 2 ^ (e - 1) in
         if r < h \<or> (r = h \<and> even q) then q * 2 ^ e else (q + 1) * 2 ^ e))"

text \<open>\<^verbatim>\<open>total + size\<close>: the exact sum, rounded; from \<open>2 ^ 1024\<close> on the result is
  \<^verbatim>\<open>Infinity\<close>.\<close>

definition addNumber :: "jsNumber \<Rightarrow> nat \<Rightarrow> jsNumber" where
  "addNumber t x =
     (case t of
        Infinity \<Rightarrow> Infinity
      | Num a \<Rightarrow> (let r = roundToDouble (a + x) in if r < 2 ^ 1024 then Num r else Infinity))"

subsection \<open>Component state\<close>

record fileBlob =
  f_name :: string
  f_type :: string
  f_content :: "byte list"

text \<open>\<^verbatim>\<open>selectedFile.size\<close>\<close>

definition f_size :: "fileBlob \<Rightarrow> nat" where
  "f_size f = length (f_content f)"

record app =
  idb :: db
  currentUser :: "session option"
  user :: "session option"
  email :: string
  password :: string
  message :: string
  messageType :: string
  currentFolder :: "string option"
  documents :: "document list"
  newFileName :: string
  selectedFile :: "fileBlob option"
  sortKey :: string
  sortOrder :: string
  searchQuery :: string
  isLoginMode :: bool
  isUploadModalOpen :: bool
  folderCounts :: "string \<rightharpoonup> nat"
  totalDocsCount :: nat
  totalStorageUsed :: jsNumber
  isEditModalOpen :: bool
  editingDoc :: "document option"

definition showMessage :: "string \<Rightarrow> string \<Rightarrow> app \<Rightarrow> app" where
  "showMessage msg type s = s\<lparr>message := msg, messageType := type\<rparr>"

subsection \<open>Account handlers\<close>

definition handleRegister :: "(byte list \<Rightarrow> byte list) \<Rightarrow> app \<Rightarrow> app" where
  "handleRegister digest s =
     (case getItem (email s) (idb s) of
        (d1, Some existingUser) \<Rightarrow>
          showMessage ''Email ini sudah terdaftar!'' ''error'' (s\<lparr>idb := d1\<rparr>)
      | (d1, None) \<Rightarrow>
          (let h = sha256 digest (password s) in
           case addItem \<lparr>u_id = email s, u_email = email s, passwordHash = h\<rparr> d1 of
             (d2, Some e) \<Rightarrow>
               showMessage (''Gagal mendaftar: '' @ error_message e) ''error'' (s\<lparr>idb := d2\<rparr>)
           | (d2, None) \<Rightarrow>
               (showMessage ''Registrasi berhasil! Silakan login.'' ''success'' (s\<lparr>idb := d2\<rparr>))
                 \<lparr>isLoginMode := True, email := [], password := []\<rparr>))"

text \<open>\<^verbatim>\<open>handleLogin\<close> of \<^verbatim>\<open>src/src/App.js\<close>: one message for both failures.\<close>

definition handleLogin :: "(byte list \<Rightarrow> byte list) \<Rightarrow> app \<Rightarrow> app" where
  "handleLogin digest s =
     (case getItem (email s) (idb s) of
        (d1, Some storedUser) \<Rightarrow>
          (if sha256 digest (password s) = passwordHash storedUser then
             (let loggedInUser = \<lparr>s_id = u_id storedUser, s_email = u_email storedUser\<rparr> in
              (showMessage ''Login berhasil!'' ''success''
                 (s\<lparr>idb := d1, user := Some loggedInUser, currentUser := Some loggedInUser\<rparr>))
                \<lparr>email := [], password := []\<rparr>)
           else showMessage ''Email atau kata sandi salah.'' ''error'' (s\<lparr>idb := d1\<rparr>))
      | (d1, None) \<Rightarrow>
          showMessage ''Email atau kata sandi salah.'' ''error'' (s\<lparr>idb := d1\<rparr>))"

text \<open>\<^verbatim>\<open>handleLogin\<close> of \<^verbatim>\<open>part_000\<close>: the two failures have their own messages.\<close>

definition handleLogin_part0 :: "(byte list \<Rightarrow> byte list) \<Rightarrow> app \<Rightarrow> app" where
  "handleLogin_part0 digest s =
     (case getItem (email s) (idb s) of
        (d1, Some storedUser) \<Rightarrow>
          (let inputPasswordHash = sha256 digest (password s) in
           if inputPasswordHash = passwordHash storedUser then
             (let loggedInUser = \<lparr>s_id = u_id storedUser, s_email = u_email storedUser\<rparr> in
              (showMessage ''Login berhasil!'' ''success''
                 (s\<lparr>idb := d1, user := Some loggedInUser, currentUser := Some loggedInUser\<rparr>))
                \<lparr>email := [], password := []\<rparr>)
           else showMessage ''Kata sandi salah.'' ''error'' (s\<lparr>idb := d1\<rparr>))
      | (d1, None) \<Rightarrow> showMessage ''Email tidak terdaftar.'' ''error'' (s\<lparr>idb := d1\<rparr>))"

text \<open>Typing into the two inputs of the sign-in form.\<close>

definition typeCredentials :: "string \<Rightarrow> string \<Rightarrow> app \<Rightarrow> app" where
  "typeCredentials e p s = s\<lparr>email := e, password := p\<rparr>"

subsection \<open>Aggregates\<close>

text \<open>\<^verbatim>\<open>doc.fileSize || (doc.fileData ? doc.fileData.byteLength : 0)\<close>: a missing \<^verbatim>\<open>fileSize\<close>
  and a \<^verbatim>\<open>fileSize\<close> of 0 are both falsy.\<close>

definition byteLength :: "byte list \<Rightarrow> nat" where
  "byteLength b = length b"

definition docSize :: "document \<Rightarrow> nat" where
  "docSize doc =
     (case fileSize doc of
        Some n \<Rightarrow>
          if n \<noteq> 0 then n
          else (case fileData doc of Some b \<Rightarrow> byteLength b | None \<Rightarrow> 0)
      | None \<Rightarrow> (case fileData doc of Some b \<Rightarrow> byteLength b | None \<Rightarrow> 0))"

text \<open>\<^verbatim>\<open>{ Pendidikan: 0, Pribadi: 0, Lainnya: 0 }\<close>\<close>

definition initialCounts :: "string \<rightharpoonup> nat" where
  "initialCounts = [''Pendidikan'' \<mapsto> 0, ''Pribadi'' \<mapsto> 0, ''Lainnya'' \<mapsto> 0]"

text \<open>The body of \<^verbatim>\<open>allUserDocs.forEach\<close>; \<^verbatim>\<open>counts.hasOwnProperty(doc.folder)\<close> is
  membership of the folder among the keys of \<open>counts\<close>. A count stays below the length of an
  array, where adding 1 is exact; the running total is a sum of doubles.\<close>

definition countStep ::
  "(string \<rightharpoonup> nat) \<times> jsNumber \<Rightarrow> document \<Rightarrow> (string \<rightharpoonup> nat) \<times> jsNumber" where
  "countStep acc doc =
     (case acc of (counts, currentTotalSize) \<Rightarrow>
        ((case counts (folder doc) of
            Some c \<Rightarrow> counts(folder doc \<mapsto> c + 1)
          | None \<Rightarrow> counts),
         addNumber currentTotalSize (docSize doc)))"

definition updateAllCounts :: "app \<Rightarrow> app" where
  "updateAllCounts s =
     (case user s of
        None \<Rightarrow> s
      | Some u \<Rightarrow>
          (case getAllByUserId (s_id u) (idb s) of
             (d1, allUserDocs) \<Rightarrow>
               (case foldl countStep (initialCounts, Num 0) allUserDocs of
                  (counts, currentTotalSize) \<Rightarrow>
                    s\<lparr>idb := d1, folderCounts := counts,
                      totalDocsCount := length allUserDocs,
                      totalStorageUsed := currentTotalSize\<rparr>)))"

subsection \<open>Document handlers\<close>

text \<open>Truthiness of a state variable that holds a string or \<^verbatim>\<open>null\<close>.\<close>

definition truthy :: "string option \<Rightarrow> bool" where
  "truthy v = (case v of None \<Rightarrow> False | Some x \<Rightarrow> x \<noteq> [])"

text \<open>\<^verbatim>\<open>String.prototype.trim\<close>: the white space and line terminators below U+0100.\<close>

definition isWhiteSpace :: "char \<Rightarrow> bool" where
  "isWhiteSpace c = ((of_char c :: nat) \<in> {9, 10, 11, 12, 13, 32, 160})"

definition trim :: "string \<Rightarrow> string" where
  "trim x = rev (dropWhile isWhiteSpace (rev (dropWhile isWhiteSpace x)))"

text \<open>The effect \<^verbatim>\<open>fetchDocuments\<close>, run when \<^verbatim>\<open>user\<close> or \<^verbatim>\<open>currentFolder\<close> changes.\<close>

definition fetchDocuments :: "app \<Rightarrow> app" where
  "fetchDocuments s =
     (case user s of
        None \<Rightarrow> s\<lparr>documents := []\<rparr>
      | Some u \<Rightarrow>
          (case currentFolder s of
             None \<Rightarrow> s\<lparr>documents := []\<rparr>
           | Some cf \<Rightarrow>
               if cf = [] then s\<lparr>documents := []\<rparr>
               else (case getAllByUserIdAndFolder (s_id u) cf (idb s) of
                       (d1, fetchedDocs) \<Rightarrow> s\<lparr>idb := d1, documents := fetchedDocs\<rparr>)))"

text \<open>
  \<^verbatim>\<open>handleUploadDocument\<close> of \<^verbatim>\<open>src/src/App.js\<close>. \<open>now\<close> is \<^verbatim>\<open>new Date()\<close>; \<open>readOk\<close> tells
  whether the \<^verbatim>\<open>FileReader\<close> fires \<^verbatim>\<open>onload\<close> (with the content of the file) or fails, in
  which case this variant, having no \<^verbatim>\<open>onerror\<close>, does nothing more.
\<close>

definition handleUploadDocument :: "int \<Rightarrow> bool \<Rightarrow> app \<Rightarrow> app" where
  "handleUploadDocument now readOk s =
     (case selectedFile s of
        None \<Rightarrow> showMessage ''Harap lengkapi semua field.'' ''error'' s
      | Some f \<Rightarrow>
          if trim (newFileName s) = [] \<or> \<not> truthy (currentFolder s) then
            showMessage ''Harap lengkapi semua field.'' ''error'' s
          else
            (case (currentFolder s, user s) of
               (Some cf, Some u) \<Rightarrow>
                 if \<not> readOk then s
                 else
                   (let newDoc =
                          \<lparr>n_userId = s_id u, n_folder = cf, n_fileName = trim (newFileName s),
                           n_originalFileName = f_name f, n_uploadDate = now,
                           n_fileData = Some (f_content f), n_mimeType = f_type f,
                           n_fileSize = Some (f_size f)\<rparr>
                    in case addItem_doc newDoc (idb s) of
                         (d1, docId) \<Rightarrow>
                           showMessage ''Dokumen berhasil diunggah!'' ''success''
                             (s\<lparr>idb := d1, documents := documents s @ [withId newDoc docId],
                                isUploadModalOpen := False, selectedFile := None,
                                newFileName := []\<rparr>))
             | _ \<Rightarrow> showMessage ''Harap lengkapi semua field.'' ''error'' s))"

text \<open>
  \<^verbatim>\<open>handleUploadDocument\<close> of \<^verbatim>\<open>part_000\<close>: the name is neither trimmed nor tested after
  trimming, and \<^verbatim>\<open>reader.onerror\<close> shows a message (\<^verbatim>\<open>error.message\<close> of the progress event
  is \<^verbatim>\<open>undefined\<close>).
\<close>

definition handleUploadDocument_part0 :: "int \<Rightarrow> bool \<Rightarrow> app \<Rightarrow> app" where
  "handleUploadDocument_part0 now readOk s =
     (case selectedFile s of
        None \<Rightarrow>
          showMessage
            ''Pastikan Anda login, pilih file, masukkan nama dokumen, dan pilih folder.''
            ''error'' s
      | Some f \<Rightarrow>
          if newFileName s = [] \<or> \<not> truthy (currentFolder s) then
            showMessage
              ''Pastikan Anda login, pilih file, masukkan nama dokumen, dan pilih folder.''
              ''error'' s
          else
            (case (currentFolder s, user s) of
               (Some cf, Some u) \<Rightarrow>
                 if \<not> readOk then
                   showMessage ''Gagal membaca file: undefined'' ''error'' (s\<lparr>message := []\<rparr>)
                 else
                   (let newDoc =
                          \<lparr>n_userId = s_id u, n_folder = cf, n_fileName = newFileName s,
                           n_originalFileName = f_name f, n_uploadDate = now,
                           n_fileData = Some (f_content f), n_mimeType = f_type f,
                           n_fileSize = Some (f_size f)\<rparr>
                    in case addItem_doc newDoc (idb s) of
                         (d1, docId) \<Rightarrow>
                           (showMessage ''Dokumen berhasil diunggah!'' ''success''
                              (s\<lparr>idb := d1, selectedFile := None, newFileName := []\<rparr>))
                             \<lparr>documents := documents s @ [withId newDoc docId],
                              isUploadModalOpen := False\<rparr>)
             | _ \<Rightarrow>
                 showMessage
                   ''Pastikan Anda login, pilih file, masukkan nama dokumen, dan pilih folder.''
                   ''error'' s))"

text \<open>\<^verbatim>\<open>handleDeleteDocument\<close> of \<^verbatim>\<open>src/src/App.js\<close>; \<open>confirm\<close> is the answer of
  \<^verbatim>\<open>window.confirm\<close>.\<close>

definition handleDeleteDocument :: "bool \<Rightarrow> nat \<Rightarrow> app \<Rightarrow> app" where
  "handleDeleteDocument confirm docId s =
     (if confirm then
        showMessage ''Dokumen berhasil dihapus.'' ''success''
          (s\<lparr>idb := deleteItem docId (idb s),
             documents := filter (\<lambda>doc. d_id doc \<noteq> docId) (documents s)\<rparr>)
      else s)"

text \<open>\<^verbatim>\<open>handleDeleteDocument\<close> of \<^verbatim>\<open>part_000\<close>: nothing happens without a logged-in user.\<close>

definition handleDeleteDocument_part0 :: "bool \<Rightarrow> nat \<Rightarrow> app \<Rightarrow> app" where
  "handleDeleteDocument_part0 confirm docId s =
     (case user s of
        None \<Rightarrow> showMessage ''Anda harus login untuk menghapus dokumen.'' ''error'' s
      | Some u \<Rightarrow>
          if \<not> confirm then s
          else
            showMessage ''Dokumen berhasil dihapus!'' ''success''
              (s\<lparr>idb := deleteItem docId (idb s),
                 documents := filter (\<lambda>doc. d_id doc \<noteq> docId) (documents s)\<rparr>))"

definition handleOpenEditModal :: "document \<Rightarrow> app \<Rightarrow> app" where
  "handleOpenEditModal doc s = s\<lparr>editingDoc := Some doc, isEditModalOpen := True\<rparr>"

definition handleCloseEditModal :: "app \<Rightarrow> app" where
  "handleCloseEditModal s = s\<lparr>editingDoc := None, isEditModalOpen := False\<rparr>"

text \<open>\<^verbatim>\<open>handleUpdateDocumentName\<close> exists in \<^verbatim>\<open>src/src/App.js\<close> only.\<close>

definition handleUpdateDocumentName :: "string \<Rightarrow> app \<Rightarrow> app" where
  "handleUpdateDocumentName newName s =
     (case editingDoc s of
        None \<Rightarrow> showMessage ''Nama dokumen tidak boleh kosong.'' ''error'' s
      | Some ed \<Rightarrow>
          if trim newName = [] then showMessage ''Nama dokumen tidak boleh kosong.'' ''error'' s
          else
            (let updatedDoc = ed\<lparr>fileName := trim newName\<rparr> in
             handleCloseEditModal
               (showMessage ''Nama dokumen berhasil diperbarui!'' ''success''
                  (s\<lparr>idb := updateItem updatedDoc (idb s),
                     documents :=
                       map (\<lambda>doc. if d_id doc = d_id ed then updatedDoc else doc)
                         (documents s)\<rparr>))))"

subsection \<open>Navigation, logout and the file input\<close>

text \<open>
  \<^verbatim>\<open>currentFolder\<close> starts as \<^verbatim>\<open>null\<close>. \<^verbatim>\<open>setCurrentFolder\<close> is called by the \<^verbatim>\<open>onClick\<close> of
  the three folder cards, each with its own literal, and with \<^verbatim>\<open>null\<close> by the way back (the
  path line and the button) and by the logout, and nowhere else.
\<close>

datatype folderCard = CardPendidikan | CardPribadi | CardLainnya

fun cardFolder :: "folderCard \<Rightarrow> string" where
  "cardFolder CardPendidikan = ''Pendidikan''"
| "cardFolder CardPribadi = ''Pribadi''"
| "cardFolder CardLainnya = ''Lainnya''"

definition clickFolderCard :: "folderCard \<Rightarrow> app \<Rightarrow> app" where
  "clickFolderCard c s = s\<lparr>currentFolder := Some (cardFolder c)\<rparr>"

definition clickBack :: "app \<Rightarrow> app" where
  "clickBack s = s\<lparr>currentFolder := None\<rparr>"

definition handleLogout :: "app \<Rightarrow> app" where
  "handleLogout s = s\<lparr>user := None, currentUser := None, currentFolder := None, documents := []\<rparr>"

definition handleLogout_part0 :: "app \<Rightarrow> app" where
  "handleLogout_part0 s =
     showMessage ''Logout berhasil.'' ''success''
       (s\<lparr>user := None, currentUser := None, currentFolder := None, documents := [],
          searchQuery := [], folderCounts := initialCounts, totalDocsCount := 0,
          totalStorageUsed := Num 0\<rparr>)"

text \<open>\<^verbatim>\<open>name.split('.')\<close> and \<^verbatim>\<open>pieces.join('.')\<close>\<close>

fun splitDot :: "string \<Rightarrow> string list" where
  "splitDot [] = [[]]"
| "splitDot (c # cs) =
     (if c = CHR ''.'' then [] # splitDot cs
      else (case splitDot cs of [] \<Rightarrow> [[c]] | p # ps \<Rightarrow> (c # p) # ps))"

fun joinDot :: "string list \<Rightarrow> string" where
  "joinDot [] = []"
| "joinDot [p] = p"
| "joinDot (p # q # ps) = p @ ''.'' @ joinDot (q # ps)"

text \<open>\<^verbatim>\<open>handleFileChange\<close>: \<open>chosen\<close> is \<^verbatim>\<open>e.target.files[0]\<close>. The display name proposed is
  the file name without its last extension, or the file name when that is empty.\<close>

definition handleFileChange :: "fileBlob option \<Rightarrow> app \<Rightarrow> app" where
  "handleFileChange chosen s =
     (case chosen of
        None \<Rightarrow> s
      | Some f \<Rightarrow>
          s\<lparr>selectedFile := Some f,
            newFileName :=
              (let base = joinDot (butlast (splitDot (f_name f))) in
               if base = [] then f_name f else base)\<rparr>)"

text \<open>In \<^verbatim>\<open>part_000\<close> an emptied input clears the choice.\<close>

definition handleFileChange_part0 :: "fileBlob option \<Rightarrow> app \<Rightarrow> app" where
  "handleFileChange_part0 chosen s =
     (case chosen of
        None \<Rightarrow> s\<lparr>selectedFile := None, newFileName := []\<rparr>
      | Some f \<Rightarrow>
          s\<lparr>selectedFile := Some f,
            newFileName :=
              (let base = joinDot (butlast (splitDot (f_name f))) in
               if base = [] then f_name f else base)\<rparr>)"

subsection \<open>Filtering and sorting the displayed documents\<close>












subsection \<open>Formatting a byte count\<close>

text \<open>
  \<^verbatim>\<open>Math.floor(Math.log(bytes) / Math.log(k))\<close> with \<open>k = 1024\<close>, for a byte count up to
  \<open>2 ^ 53\<close>. The two logarithms and their quotient are doubles. The floor of the quotient is
  the exact logarithm, except for the three byte counts just below \<open>1024 ^ 5\<close>: their
  logarithm rounds to the one of \<open>1024 ^ 5\<close>, and the quotient is 5.
\<close>

definition logQuotientFloor :: "nat \<Rightarrow> nat" where
  "logQuotientFloor bytes =
     (if 1024 ^ 5 - 3 \<le> bytes \<and> bytes < 1024 ^ 5 then 5 else floorLog 1024 bytes)"

definition sizes :: "string list" where
  "sizes = [''Bytes'', ''KB'', ''MB'', ''GB'', ''TB'']"

text \<open>\<^verbatim>\<open>sizes[i]\<close> inside a string: an index past the array reads \<^verbatim>\<open>undefined\<close>.\<close>

definition sizeName :: "nat \<Rightarrow> string" where
  "sizeName i = (if i < length sizes then sizes ! i else ''undefined'')"

text \<open>
  \<^verbatim>\<open>(bytes / Math.pow(k, i)).toFixed(2)\<close> for \<open>p = k ^ i\<close>, as a number of hundredths: the
  integer nearest to \<open>100 * bytes / p\<close>, the larger one of two. Dividing a byte count that a
  number holds exactly by a power of 1024 is exact in binary floating point.
\<close>

definition toFixed2 :: "nat \<Rightarrow> nat \<Rightarrow> nat" where
  "toFixed2 bytes p = (200 * bytes + p) div (2 * p)"

definition digit :: "nat \<Rightarrow> char" where
  "digit n = (''0123456789'') ! (n mod 10)"

function showNat :: "nat \<Rightarrow> string" where
  "showNat n = (if n < 10 then [digit n] else showNat (n div 10) @ [digit n])"
  by pat_completeness auto
termination
  by (relation "measure (\<lambda>n. n)") auto

declare showNat.simps [simp del]

text \<open>\<^verbatim>\<open>parseFloat\<close> of the two-decimal string, printed again: trailing zeros of the
  fraction, and a fraction of zero, disappear.\<close>

definition showHundredths :: "nat \<Rightarrow> string" where
  "showHundredths h =
     (let ip = h div 100; fp = h mod 100 in
      if fp = 0 then showNat ip
      else if fp mod 10 = 0 then showNat ip @ ''.'' @ [digit (fp div 10)]
      else showNat ip @ ''.'' @ [digit (fp div 10), digit fp])"

text \<open>\<^verbatim>\<open>formatBytes(bytes)\<close> with the default \<^verbatim>\<open>decimals = 2\<close>, the way every caller uses
  it, for an integer byte count up to \<open>2 ^ 53\<close>; \<^verbatim>\<open>!bytes\<close> holds for a missing count and
  for 0.\<close>

definition formatBytes :: "nat option \<Rightarrow> string" where
  "formatBytes bytes =
     (case bytes of
        None \<Rightarrow> ''0 Bytes''
      | Some b \<Rightarrow>
          if b = 0 then ''0 Bytes''
          else
            (let k = 1024; i = logQuotientFloor b in
             showHundredths (toFixed2 b (k ^ i)) @ '' '' @ sizeName i))"

subsection \<open>Initial state, store invariant and sample data\<close>

text \<open>The database after \<^verbatim>\<open>onupgradeneeded\<close> (a key generator starts at 1) and the
  component state given by the \<^verbatim>\<open>useState\<close> defaults.\<close>

definition emptyDb :: db where
  "emptyDb = \<lparr>userStore = Map.empty, docStore = [], keyGen = 1, requests = []\<rparr>"

definition initialApp :: app where
  "initialApp =
     \<lparr>idb = emptyDb, currentUser = None, user = None, email = [], password = [],
      message = [], messageType = [], currentFolder = None, documents = [], newFileName = [],
      selectedFile = None, sortKey = ''uploadDate'', sortOrder = ''desc'', searchQuery = [],
      isLoginMode = True, isUploadModalOpen = False, folderCounts = initialCounts,
      totalDocsCount = 0, totalStorageUsed = Num 0, isEditModalOpen = False,
      editingDoc = None\<rparr>"

text \<open>An object store holds one record per key and lists its records in key order.\<close>

definition keyOrdered :: "document list \<Rightarrow> bool" where
  "keyOrdered docs = sorted_wrt (<) (map d_id docs)"

text \<open>The property names of the \<^verbatim>\<open>counts\<close> object, and the reading of one of them by a
  \<^verbatim>\<open>FolderCard\<close>.\<close>

definition enumeratedFolders :: "string list" where
  "enumeratedFolders = [''Pendidikan'', ''Pribadi'', ''Lainnya'']"

definition readCount :: "(string \<rightharpoonup> nat) \<Rightarrow> string \<Rightarrow> nat" where
  "readCount counts f = (case counts f of Some c \<Rightarrow> c | None \<Rightarrow> 0)"

text \<open>The size of a document in the words of the specification: \<^verbatim>\<open>fileSize\<close>, and the byte
  length of the payload when \<^verbatim>\<open>fileSize\<close> is absent.\<close>

definition specSize :: "document \<Rightarrow> nat" where
  "specSize doc =
     (case fileSize doc of
        Some n \<Rightarrow> n
      | None \<Rightarrow> (case fileData doc of Some b \<Rightarrow> byteLength b | None \<Rightarrow> 0))"

text \<open>Sample data: two users; the second document is a record written before
  \<^verbatim>\<open>fileSize\<close> existed.\<close>

definition sampleDoc1 :: document where
  "sampleDoc1 =
     \<lparr>d_id = 1, userId = ''ani@x.id'', folder = ''Pendidikan'', fileName = ''b.txt'',
      originalFileName = ''Notes.TXT'', uploadDate = 1000, fileData = Some [1, 2, 3],
      mimeType = ''text/plain'', fileSize = Some 3\<rparr>"

definition sampleDoc2 :: document where
  "sampleDoc2 =
     \<lparr>d_id = 2, userId = ''ani@x.id'', folder = ''Pribadi'', fileName = ''A.txt'',
      originalFileName = ''a.txt'', uploadDate = 3000, fileData = Some [4, 5],
      mimeType = ''text/plain'', fileSize = None\<rparr>"

definition sampleDoc3 :: document where
  "sampleDoc3 =
     \<lparr>d_id = 3, userId = ''budi@x.id'', folder = ''Lainnya'', fileName = ''c.txt'',
      originalFileName = ''c.txt'', uploadDate = 2000, fileData = Some [7],
      mimeType = ''text/plain'', fileSize = Some 1\<rparr>"

definition sampleDb :: db where
  "sampleDb =
     \<lparr>userStore =
        [''ani@x.id'' \<mapsto> \<lparr>u_id = ''ani@x.id'', u_email = ''ani@x.id'', passwordHash = ''7077''\<rparr>],
      docStore = [sampleDoc1, sampleDoc2, sampleDoc3], keyGen = 4, requests = []\<rparr>"

definition sampleApp :: app where
  "sampleApp =
     initialApp\<lparr>idb := sampleDb, user := Some \<lparr>s_id = ''ani@x.id'', s_email = ''ani@x.id''\<rparr>\<rparr>"

definition sampleFile :: fileBlob where
  "sampleFile = \<lparr>f_name = ''cv.pdf'', f_type = ''application/pdf'', f_content = [37, 80]\<rparr>"

text \<open>\<^verbatim>\<open>listAll\<close> and \<^verbatim>\<open>listByFolder\<close> of the specification are the two index queries.\<close>

definition listAll :: "string \<Rightarrow> db \<Rightarrow> document list" where
  "listAll uid d = snd (getAllByUserId uid d)"

definition listByFolder :: "string \<Rightarrow> string \<Rightarrow> db \<Rightarrow> document list" where
  "listByFolder uid f d = snd (getAllByUserIdAndFolder uid f d)"

text \<open>
  What the handlers keep true of every state. A record has no \<^verbatim>\<open>fileSize\<close> (it was written
  before the field existed) or the byte length of its payload as \<^verbatim>\<open>fileSize\<close>, and its
  folder is one of the three names; the current folder is \<^verbatim>\<open>null\<close> or one of the three
  names; the displayed documents and the document being edited are such records too.
\<close>

definition sizeRecorded :: "document \<Rightarrow> bool" where
  "sizeRecorded doc =
     (case fileSize doc of
        None \<Rightarrow> True
      | Some n \<Rightarrow> (case fileData doc of None \<Rightarrow> False | Some b \<Rightarrow> n = byteLength b))"

definition docWritten :: "document \<Rightarrow> bool" where
  "docWritten doc = (sizeRecorded doc \<and> folder doc \<in> set enumeratedFolders)"

definition folderChosen :: "app \<Rightarrow> bool" where
  "folderChosen s =
     (case currentFolder s of None \<Rightarrow> True | Some f \<Rightarrow> f \<in> set enumeratedFolders)"

definition wellFormed :: "app \<Rightarrow> bool" where
  "wellFormed s =
     (keyOrdered (docStore (idb s))
      \<and> (\<forall>x\<in>set (docStore (idb s)). docWritten x)
      \<and> (\<forall>x\<in>set (documents s). docWritten x)
      \<and> (case editingDoc s of None \<Rightarrow> True | Some d \<Rightarrow> docWritten d)
      \<and> folderChosen s)"

text \<open>
  A second sample: registration and login, the third folder opened, and two files uploaded
  there, one of \<open>2 ^ 53 - 1\<close> bytes (the longest an \<^verbatim>\<open>ArrayBuffer\<close> can be) and one of
  2 bytes. \<open>hugeDoc\<close> and \<open>smallDoc\<close> are the two records these uploads write.
\<close>

definition hugePayload :: "byte list" where
  "hugePayload = replicate 9007199254740991 0"

definition hugeFile :: fileBlob where
  "hugeFile =
     \<lparr>f_name = ''disk.img'', f_type = ''application/octet-stream'', f_content = hugePayload\<rparr>"

definition folderApp :: app where
  "folderApp =
     clickFolderCard CardLainnya
       (handleLogin (\<lambda>b. b)
          (typeCredentials ''ani@x.id'' ''pw''
             (handleRegister (\<lambda>b. b) (typeCredentials ''ani@x.id'' ''pw'' initialApp))))"

definition hugeDoc :: document where
  "hugeDoc =
     \<lparr>d_id = 1, userId = ''ani@x.id'', folder = ''Lainnya'', fileName = ''disk'',
      originalFileName = ''disk.img'', uploadDate = 1000, fileData = Some hugePayload,
      mimeType = ''application/octet-stream'', fileSize = Some 9007199254740991\<rparr>"

definition smallDoc :: document where
  "smallDoc =
     \<lparr>d_id = 2, userId = ''ani@x.id'', folder = ''Lainnya'', fileName = ''cv'',
      originalFileName = ''cv.pdf'', uploadDate = 2000, fileData = Some [37, 80],
      mimeType = ''application/pdf'', fileSize = Some 2\<rparr>"

definition hugeApp :: app where
  "hugeApp =
     handleUploadDocument 2000 True
       (handleFileChange (Some sampleFile)
          (handleUploadDocument 1000 True (handleFileChange (Some hugeFile) folderApp)))"

text \<open>The sample state with the edit dialog open on the first document.\<close>

definition renameApp :: app where
  "renameApp = handleOpenEditModal sampleDoc1 sampleApp"


section \<open>Accounts\<close>

lemma sample_hash: "sha256 (\<lambda>b. b) ''pw'' = ''7077''"
  by (simp add: sha256_def utf8_def hex2_def hexDigit_def)

text \<open>
  Claim C1. Registering an email that the users store does not hold yet, and then logging in
  with the same email and password, succeeds in both variants of \<^verbatim>\<open>handleLogin\<close>: the stored
  user is found, the digest of the password is recomputed and equals the stored
  \<^verbatim>\<open>passwordHash\<close>, and the session user, in state and in localStorage, has \<^verbatim>\<open>id\<close> and
  \<^verbatim>\<open>email\<close> equal to the registered email. The form validates nothing, so every email and
  password is accepted; the digest is any function.
\<close>

theorem register_then_login:
  assumes "userStore (idb s) e = None"
  shows "let s1 = handleRegister digest (typeCredentials e p s);
             s2 = handleLogin digest (typeCredentials e p s1);
             s2' = handleLogin_part0 digest (typeCredentials e p s1)
         in userStore (idb s1) e = Some \<lparr>u_id = e, u_email = e, passwordHash = sha256 digest p\<rparr>
            \<and> user s2 = Some \<lparr>s_id = e, s_email = e\<rparr>
            \<and> currentUser s2 = Some \<lparr>s_id = e, s_email = e\<rparr>
            \<and> message s2 = ''Login berhasil!'' \<and> messageType s2 = ''success''
            \<and> user s2' = Some \<lparr>s_id = e, s_email = e\<rparr>
            \<and> currentUser s2' = Some \<lparr>s_id = e, s_email = e\<rparr>
            \<and> message s2' = ''Login berhasil!'' \<and> messageType s2' = ''success''"
  using assms
  by (simp add: handleRegister_def handleLogin_def handleLogin_part0_def typeCredentials_def
      showMessage_def getItem_def addItem_def Let_def)

theorem register_then_login_witness:
  "userStore (idb initialApp) ''a@b.id'' = None
   \<and> user (handleLogin (\<lambda>b. b)
        (typeCredentials ''a@b.id'' ''pw''
           (handleRegister (\<lambda>b. b) (typeCredentials ''a@b.id'' ''pw'' initialApp))))
       = Some \<lparr>s_id = ''a@b.id'', s_email = ''a@b.id''\<rparr>"
proof -
  have h: "userStore (idb initialApp) ''a@b.id'' = None"
    by (simp add: initialApp_def emptyDb_def)
  show ?thesis
    using h register_then_login [OF h, of "\<lambda>b. b" "''pw''"] by (simp add: Let_def)
qed

text \<open>When the email is free, the existence check is the request before the write.\<close>

lemma register_get_before_add:
  assumes "userStore (idb s) (email s) = None"
  shows "requests (idb (handleRegister digest s))
           = requests (idb s) @ [ReqGet USER_STORE, ReqAdd USER_STORE]"
  using assms
  by (simp add: handleRegister_def showMessage_def getItem_def addItem_def Let_def)

text \<open>
  Claim C7. When the users store already holds a user under the email, registration fails
  with the message for a registered email, whatever the password and the digest: the users
  store and the documents are unchanged, nobody is logged in by it, and the only request issued
  is the \<^verbatim>\<open>get\<close> on the users store (no write follows it).
\<close>

theorem register_duplicate:
  assumes "userStore (idb s) e = Some u"
  shows "let s0 = typeCredentials e p s; s' = handleRegister digest s0
         in message s' = ''Email ini sudah terdaftar!'' \<and> messageType s' = ''error''
            \<and> userStore (idb s') = userStore (idb s)
            \<and> docStore (idb s') = docStore (idb s)
            \<and> requests (idb s') = requests (idb s) @ [ReqGet USER_STORE]
            \<and> user s' = user s \<and> currentUser s' = currentUser s"
  using assms
  by (simp add: handleRegister_def typeCredentials_def showMessage_def getItem_def Let_def)

theorem register_duplicate_witness:
  "userStore (idb sampleApp) ''ani@x.id'' \<noteq> None
   \<and> message (handleRegister (\<lambda>b. b) (typeCredentials ''ani@x.id'' ''other'' sampleApp))
       = ''Email ini sudah terdaftar!''
   \<and> userStore (idb (handleRegister (\<lambda>b. b) (typeCredentials ''ani@x.id'' ''other'' sampleApp)))
       = userStore sampleDb"
proof -
  have h: "userStore (idb sampleApp) ''ani@x.id''
             = Some \<lparr>u_id = ''ani@x.id'', u_email = ''ani@x.id'', passwordHash = ''7077''\<rparr>"
    by (simp add: sampleApp_def sampleDb_def)
  have i: "idb sampleApp = sampleDb"
    by (simp add: sampleApp_def)
  show ?thesis
    using h i register_duplicate [OF h, of "''other''" "\<lambda>b. b"] by (simp add: Let_def)
qed

text \<open>
  Claim C8. Login fails when the users store holds nobody under the email, and when the
  stored \<^verbatim>\<open>passwordHash\<close> differs from the digest of the password: in both variants the
  session user and the localStorage slot stay as they were, an error message is shown, and the
  only request is the \<^verbatim>\<open>get\<close>. (\<^verbatim>\<open>part_000\<close> tells the two failures apart in its message.)
\<close>

theorem login_fails:
  assumes "case userStore (idb s) e of
             None \<Rightarrow> True
           | Some u \<Rightarrow> passwordHash u \<noteq> sha256 digest p"
  shows "let s0 = typeCredentials e p s;
             s1 = handleLogin digest s0;
             s2 = handleLogin_part0 digest s0
         in user s1 = user s \<and> currentUser s1 = currentUser s \<and> messageType s1 = ''error''
            \<and> message s1 = ''Email atau kata sandi salah.''
            \<and> requests (idb s1) = requests (idb s) @ [ReqGet USER_STORE]
            \<and> userStore (idb s1) = userStore (idb s) \<and> docStore (idb s1) = docStore (idb s)
            \<and> user s2 = user s \<and> currentUser s2 = currentUser s \<and> messageType s2 = ''error''
            \<and> message s2 = (if userStore (idb s) e = None then ''Email tidak terdaftar.''
                             else ''Kata sandi salah.'')
            \<and> requests (idb s2) = requests (idb s) @ [ReqGet USER_STORE]
            \<and> userStore (idb s2) = userStore (idb s) \<and> docStore (idb s2) = docStore (idb s)"
  using assms
  by (cases "userStore (idb s) e")
     (simp_all add: handleLogin_def handleLogin_part0_def typeCredentials_def showMessage_def
        getItem_def Let_def)

theorem login_fails_witness:
  "(case userStore (idb initialApp) ''ani@x.id'' of
      None \<Rightarrow> True | Some u \<Rightarrow> passwordHash u \<noteq> sha256 (\<lambda>b. b) ''pw'')
   \<and> (case userStore (idb (initialApp\<lparr>idb := sampleDb\<rparr>)) ''ani@x.id'' of
      None \<Rightarrow> True | Some u \<Rightarrow> passwordHash u \<noteq> sha256 (\<lambda>b. b) ''wrong'')
   \<and> user (handleLogin (\<lambda>b. b) (typeCredentials ''ani@x.id'' ''pw'' initialApp)) = None
   \<and> currentUser (handleLogin_part0 (\<lambda>b. b)
        (typeCredentials ''ani@x.id'' ''wrong'' (initialApp\<lparr>idb := sampleDb\<rparr>))) = None
   \<and> message (handleLogin_part0 (\<lambda>b. b)
        (typeCredentials ''ani@x.id'' ''wrong'' (initialApp\<lparr>idb := sampleDb\<rparr>)))
       = ''Kata sandi salah.''"
proof -
  have h1: "case userStore (idb initialApp) ''ani@x.id'' of
      None \<Rightarrow> True | Some u \<Rightarrow> passwordHash u \<noteq> sha256 (\<lambda>b. b) ''pw''"
    by (simp add: initialApp_def emptyDb_def)
  have h2: "case userStore (idb (initialApp\<lparr>idb := sampleDb\<rparr>)) ''ani@x.id'' of
      None \<Rightarrow> True | Some u \<Rightarrow> passwordHash u \<noteq> sha256 (\<lambda>b. b) ''wrong''"
    by (simp add: sampleDb_def sha256_def utf8_def hex2_def hexDigit_def)
  have n: "user initialApp = None" "currentUser initialApp = None"
    "userStore sampleDb ''ani@x.id'' \<noteq> None"
    by (simp_all add: initialApp_def sampleDb_def)
  show ?thesis
    using h1 h2 n login_fails [OF h1] login_fails [OF h2] by (simp add: Let_def)
qed

section \<open>Deleting a document\<close>

text \<open>
  Claim C10. Deletion is not scoped to the logged-in user. For every state with a session
  user and every document id, a confirmed delete removes from the documents store whatever
  record has that key, and nothing else; no field of the record is read, so its \<^verbatim>\<open>userId\<close>
  plays no part. (\<^verbatim>\<open>src/src/App.js\<close> does not even ask for a session user.)
\<close>

theorem delete_ignores_owner:
  assumes "user s = Some u"
  shows "let s1 = handleDeleteDocument True docId s;
             s2 = handleDeleteDocument_part0 True docId s
         in docStore (idb s1) = filter (\<lambda>x. d_id x \<noteq> docId) (docStore (idb s))
            \<and> docStore (idb s2) = filter (\<lambda>x. d_id x \<noteq> docId) (docStore (idb s))
            \<and> docId \<notin> d_id ` set (docStore (idb s1))
            \<and> docId \<notin> d_id ` set (docStore (idb s2))
            \<and> requests (idb s1) = requests (idb s) @ [ReqDelete DOC_STORE]
            \<and> requests (idb s2) = requests (idb s) @ [ReqDelete DOC_STORE]"
  using assms
  by (auto simp add: handleDeleteDocument_def handleDeleteDocument_part0_def showMessage_def
      deleteItem_def Let_def)

theorem delete_ignores_owner_witness:
  "user sampleApp = Some \<lparr>s_id = ''ani@x.id'', s_email = ''ani@x.id''\<rparr>
   \<and> sampleDoc3 \<in> set (docStore (idb sampleApp))
   \<and> userId sampleDoc3 \<noteq> ''ani@x.id''
   \<and> docStore (idb (handleDeleteDocument True 3 sampleApp)) = [sampleDoc1, sampleDoc2]
   \<and> docStore (idb (handleDeleteDocument_part0 True 3 sampleApp)) = [sampleDoc1, sampleDoc2]"
proof -
  have u: "user sampleApp = Some \<lparr>s_id = ''ani@x.id'', s_email = ''ani@x.id''\<rparr>"
    by (simp add: sampleApp_def)
  have k: "d_id sampleDoc3 = 3" "d_id sampleDoc1 = 1" "d_id sampleDoc2 = 2"
    "userId sampleDoc3 \<noteq> ''ani@x.id''"
    "docStore (idb sampleApp) = [sampleDoc1, sampleDoc2, sampleDoc3]"
    by (simp_all add: sampleDoc1_def sampleDoc2_def sampleDoc3_def sampleApp_def sampleDb_def)
  show ?thesis
    using u k delete_ignores_owner [OF u, of 3] by (simp add: Let_def)
qed

section \<open>Facts about the sample data\<close>

lemma keyOrdered_distinct: "keyOrdered docs \<Longrightarrow> distinct (map d_id docs)"
  unfolding keyOrdered_def by (induction docs) auto

lemma sample_keyOrdered: "keyOrdered (docStore (idb sampleApp))"
  by (simp add: keyOrdered_def sampleApp_def sampleDb_def sampleDoc1_def sampleDoc2_def
      sampleDoc3_def)

lemma sample_listAll: "listAll ''ani@x.id'' (idb sampleApp) = [sampleDoc1, sampleDoc2]"
  by (simp add: listAll_def getAllByUserId_def sampleApp_def sampleDb_def sampleDoc1_def
      sampleDoc2_def sampleDoc3_def)

lemma sample_sizes:
  "docSize sampleDoc1 = 3" "docSize sampleDoc2 = 2" "docSize sampleDoc3 = 1"
  "specSize sampleDoc1 = 3" "specSize sampleDoc2 = 2"
  by (simp_all add: docSize_def specSize_def byteLength_def sampleDoc1_def sampleDoc2_def
      sampleDoc3_def)

lemma sample_user: "user sampleApp = Some \<lparr>s_id = ''ani@x.id'', s_email = ''ani@x.id''\<rparr>"
  by (simp add: sampleApp_def)

section \<open>Renaming a document\<close>

subsection \<open>The store keeps its records in key order\<close>

lemma set_putRecord: "set (putRecord d docs) \<subseteq> insert d (set docs)"
  by (induction docs) auto

lemma keyOrdered_Cons:
  "keyOrdered (x # xs) \<longleftrightarrow> (\<forall>y\<in>set xs. d_id x < d_id y) \<and> keyOrdered xs"
  by (auto simp: keyOrdered_def)

lemma keyOrdered_putRecord: "keyOrdered docs \<Longrightarrow> keyOrdered (putRecord d docs)"
proof (induction docs)
  case Nil
  then show ?case by (simp add: keyOrdered_def)
next
  case (Cons x xs)
  from Cons.prems have lt: "\<forall>y\<in>set xs. d_id x < d_id y" and ko: "keyOrdered xs"
    by (simp_all add: keyOrdered_Cons)
  show ?case
  proof (cases "d_id d = d_id x")
    case True
    with lt ko show ?thesis by (simp add: keyOrdered_Cons)
  next
    case False
    show ?thesis
    proof (cases "d_id d < d_id x")
      case True
      with lt ko False show ?thesis by (force simp: keyOrdered_Cons)
    next
      case ge: False
      have "\<forall>y\<in>set (putRecord d xs). d_id x < d_id y"
        using set_putRecord [of d xs] lt False ge by auto
      with False ge Cons.IH [OF ko] show ?thesis by (simp add: keyOrdered_Cons)
    qed
  qed
qed

lemma keyOrdered_filter: "keyOrdered docs \<Longrightarrow> keyOrdered (filter P docs)"
  by (induction docs) (auto simp: keyOrdered_Cons)

lemma putRecord_replace:
  assumes "keyOrdered docs" and "d \<in> set docs" and "d_id d' = d_id d"
  shows "putRecord d' docs = map (\<lambda>x. if x = d then d' else x) docs"
  using assms
proof (induction docs)
  case Nil
  then show ?case by simp
next
  case (Cons x xs)
  from Cons.prems have lt: "\<forall>y\<in>set xs. d_id x < d_id y" and ko: "keyOrdered xs"
    by (simp_all add: keyOrdered_Cons)
  show ?case
  proof (cases "x = d")
    case True
    with lt have "\<forall>y\<in>set xs. y \<noteq> d" by auto
    then have "map (\<lambda>x. if x = d then d' else x) xs = xs" by (simp add: map_idI)
    with True Cons.prems(3) show ?thesis by simp
  next
    case False
    with Cons.prems have mem: "d \<in> set xs" by simp
    with lt have "d_id x < d_id d" by blast
    with Cons.prems(3) False Cons.IH [OF ko mem Cons.prems(3)] show ?thesis by simp
  qed
qed

lemma trim_Nil: "trim [] = []"
  by (simp add: trim_def)

lemma keyOrdered_initial: "keyOrdered (docStore (idb initialApp))"
  by (simp add: keyOrdered_def initialApp_def emptyDb_def)

lemma handlers_keep_keyOrdered:
  assumes "keyOrdered (docStore (idb s))"
  shows "keyOrdered (docStore (idb (handleUploadDocument now readOk s)))"
    and "keyOrdered (docStore (idb (handleUploadDocument_part0 now readOk s)))"
    and "keyOrdered (docStore (idb (handleDeleteDocument confirm docId s)))"
    and "keyOrdered (docStore (idb (handleDeleteDocument_part0 confirm docId s)))"
    and "keyOrdered (docStore (idb (handleUpdateDocumentName newName s)))"
  using assms
  by (auto simp: handleUploadDocument_def handleUploadDocument_part0_def
      handleDeleteDocument_def handleDeleteDocument_part0_def handleUpdateDocumentName_def
      handleCloseEditModal_def showMessage_def addItem_doc_def updateItem_def deleteItem_def
      Let_def keyOrdered_putRecord keyOrdered_filter split: option.splits)

lemma trim_sample: "trim '' Tugas 1 '' = ''Tugas 1''" "trim '' '' = []"
  by (simp_all add: trim_def isWhiteSpace_def)

lemma rename_sample:
  "editingDoc renameApp = Some sampleDoc1" "idb renameApp = idb sampleApp"
  by (simp_all add: renameApp_def handleOpenEditModal_def)

text \<open>
  Claim C4, as the code has it. The handler trims the new name. With the edit dialog open on
  a stored document \<open>d\<close>: when the trimmed name is not empty, one \<^verbatim>\<open>put\<close> replaces \<open>d\<close> by
  the record that differs from \<open>d\<close> in \<^verbatim>\<open>fileName\<close> only, which becomes the trimmed name;
  every other record of the documents store and the users store stay as they are. When the
  trimmed name is empty, in particular for the empty name, the rename is rejected with no
  request to the store.
\<close>

theorem rename_changes_fileName_only:
  assumes "keyOrdered (docStore (idb s))"
    and "editingDoc s = Some d"
    and "d \<in> set (docStore (idb s))"
  shows "let s' = handleUpdateDocumentName newName s; d' = d\<lparr>fileName := trim newName\<rparr>
         in (trim newName \<noteq> [] \<longrightarrow>
               docStore (idb s') = map (\<lambda>x. if x = d then d' else x) (docStore (idb s))
               \<and> d' \<in> set (docStore (idb s'))
               \<and> (\<forall>x\<in>set (docStore (idb s)). x \<noteq> d \<longrightarrow> x \<in> set (docStore (idb s')))
               \<and> fileName d' = trim newName \<and> d_id d' = d_id d \<and> userId d' = userId d
               \<and> folder d' = folder d \<and> originalFileName d' = originalFileName d
               \<and> uploadDate d' = uploadDate d \<and> fileData d' = fileData d
               \<and> fileSize d' = fileSize d \<and> mimeType d' = mimeType d
               \<and> userStore (idb s') = userStore (idb s)
               \<and> requests (idb s') = requests (idb s) @ [ReqPut DOC_STORE])
            \<and> (trim newName = [] \<longrightarrow>
                 idb s' = idb s \<and> message s' = ''Nama dokumen tidak boleh kosong.''
                 \<and> messageType s' = ''error'')
            \<and> idb (handleUpdateDocumentName [] s) = idb s"
proof -
  define d' where "d' = d\<lparr>fileName := trim newName\<rparr>"
  define s' where "s' = handleUpdateDocumentName newName s"
  have id: "d_id d' = d_id d" by (simp add: d'_def)
  have rep: "putRecord d' (docStore (idb s)) = map (\<lambda>x. if x = d then d' else x) (docStore (idb s))"
    by (rule putRecord_replace [OF assms(1) assms(3) id])
  have ok: "trim newName \<noteq> [] \<Longrightarrow>
      docStore (idb s') = map (\<lambda>x. if x = d then d' else x) (docStore (idb s))
      \<and> userStore (idb s') = userStore (idb s)
      \<and> requests (idb s') = requests (idb s) @ [ReqPut DOC_STORE]"
    using assms(2) rep
    by (simp add: s'_def d'_def handleUpdateDocumentName_def handleCloseEditModal_def
        showMessage_def updateItem_def Let_def)
  have mem: "trim newName \<noteq> [] \<Longrightarrow> d' \<in> set (docStore (idb s'))"
    using ok assms(3) by (auto simp: image_iff)
  have others: "trim newName \<noteq> [] \<Longrightarrow>
      \<forall>x\<in>set (docStore (idb s)). x \<noteq> d \<longrightarrow> x \<in> set (docStore (idb s'))"
    using ok by (auto simp: image_iff)
  have fields: "fileName d' = trim newName \<and> d_id d' = d_id d \<and> userId d' = userId d
               \<and> folder d' = folder d \<and> originalFileName d' = originalFileName d
               \<and> uploadDate d' = uploadDate d \<and> fileData d' = fileData d
               \<and> fileSize d' = fileSize d \<and> mimeType d' = mimeType d"
    by (simp add: d'_def)
  have rej: "trim newName = [] \<Longrightarrow>
      idb s' = idb s \<and> message s' = ''Nama dokumen tidak boleh kosong.''
      \<and> messageType s' = ''error''"
    using assms(2) by (simp add: s'_def handleUpdateDocumentName_def showMessage_def)
  have emp: "idb (handleUpdateDocumentName [] s) = idb s"
    using assms(2) by (simp add: handleUpdateDocumentName_def showMessage_def trim_Nil)
  from ok mem others fields rej emp show ?thesis
    unfolding Let_def d'_def [symmetric] s'_def [symmetric] by blast
qed

theorem rename_changes_fileName_only_witness:
  "keyOrdered (docStore (idb renameApp))
   \<and> editingDoc renameApp = Some sampleDoc1
   \<and> sampleDoc1 \<in> set (docStore (idb renameApp))
   \<and> trim '' Tugas 1 '' \<noteq> []
   \<and> docStore (idb (handleUpdateDocumentName '' Tugas 1 '' renameApp))
       = [sampleDoc1\<lparr>fileName := ''Tugas 1''\<rparr>, sampleDoc2, sampleDoc3]
   \<and> trim '' '' = []
   \<and> idb (handleUpdateDocumentName '' '' renameApp) = idb renameApp"
proof -
  have k: "keyOrdered (docStore (idb renameApp))"
    using sample_keyOrdered by (simp add: rename_sample)
  have m: "sampleDoc1 \<in> set (docStore (idb renameApp))"
    by (simp add: rename_sample sampleApp_def sampleDb_def)
  have n: "sampleDoc2 \<noteq> sampleDoc1" "sampleDoc3 \<noteq> sampleDoc1"
    "docStore (idb renameApp) = [sampleDoc1, sampleDoc2, sampleDoc3]"
    by (simp_all add: rename_sample sampleApp_def sampleDb_def sampleDoc1_def sampleDoc2_def
        sampleDoc3_def)
  show ?thesis
    using k m n rename_sample(1)
      rename_changes_fileName_only [OF k rename_sample(1) m, of "'' Tugas 1 ''"]
      rename_changes_fileName_only [OF k rename_sample(1) m, of "'' ''"]
    by (simp add: Let_def trim_sample)
qed

text \<open>Claim C4 as stated fails for a name of one space: it is not empty, and the rename is
  rejected with the store untouched. A name with a leading space is stored without it.\<close>

theorem rename_blank_counterexample:
  "'' '' \<noteq> []
   \<and> editingDoc renameApp = Some sampleDoc1
   \<and> sampleDoc1 \<in> set (docStore (idb renameApp))
   \<and> idb (handleUpdateDocumentName '' '' renameApp) = idb renameApp
   \<and> message (handleUpdateDocumentName '' '' renameApp) = ''Nama dokumen tidak boleh kosong.''
   \<and> fileName (hd (docStore (idb (handleUpdateDocumentName '' a'' renameApp)))) = ''a''"
  by (simp add: handleUpdateDocumentName_def showMessage_def trim_def isWhiteSpace_def
      rename_sample sampleApp_def sampleDb_def updateItem_def handleCloseEditModal_def
      sampleDoc1_def sampleDoc2_def sampleDoc3_def Let_def)

section \<open>What every state satisfies\<close>

text \<open>\<open>wellFormed\<close> holds of the initial state and of the sample, and every handler keeps it:
  the states reached from them through the interface are all among the ones the statements
  about uploads and aggregates speak of.\<close>

lemma docWritten_fileName: "docWritten (d\<lparr>fileName := n\<rparr>) = docWritten d"
  by (simp add: docWritten_def sizeRecorded_def split: option.splits)

lemma docWritten_upload:
  assumes "cf \<in> set enumeratedFolders"
  shows "docWritten
           (withId \<lparr>n_userId = u, n_folder = cf, n_fileName = n, n_originalFileName = orig,
                    n_uploadDate = t, n_fileData = Some b, n_mimeType = m,
                    n_fileSize = Some (length b)\<rparr> k)"
  using assms by (simp add: docWritten_def sizeRecorded_def withId_def byteLength_def)

lemma wellFormed_initial: "wellFormed initialApp"
  by (simp add: wellFormed_def initialApp_def emptyDb_def keyOrdered_def folderChosen_def)

lemma wellFormed_sample: "wellFormed sampleApp"
  using sample_keyOrdered
  by (simp add: wellFormed_def sampleApp_def initialApp_def sampleDb_def folderChosen_def
      docWritten_def sizeRecorded_def byteLength_def enumeratedFolders_def sampleDoc1_def
      sampleDoc2_def sampleDoc3_def)

lemma putRecord_written:
  assumes "\<forall>x\<in>set docs. docWritten x" and "docWritten d"
  shows "\<forall>x\<in>set (putRecord d docs). docWritten x"
  using assms set_putRecord [of d docs] by auto

lemma accounts_keep_wellFormed:
  assumes "wellFormed s"
  shows "wellFormed (typeCredentials e p s)"
    and "wellFormed (handleRegister digest s)"
    and "wellFormed (handleLogin digest s)"
    and "wellFormed (handleLogin_part0 digest s)"
    and "wellFormed (handleLogout s)"
    and "wellFormed (handleLogout_part0 s)"
  using assms
  by (auto simp: wellFormed_def folderChosen_def typeCredentials_def handleRegister_def
      handleLogin_def handleLogin_part0_def handleLogout_def handleLogout_part0_def
      showMessage_def getItem_def addItem_def Let_def split: option.splits)

lemma navigation_keeps_wellFormed:
  assumes "wellFormed s"
  shows "wellFormed (clickFolderCard c s)"
    and "wellFormed (clickBack s)"
    and "wellFormed (fetchDocuments s)"
    and "wellFormed (updateAllCounts s)"
    and "wellFormed (handleFileChange chosen s)"
    and "wellFormed (handleFileChange_part0 chosen s)"
    and "wellFormed (handleCloseEditModal s)"
    and "doc \<in> set (documents s) \<Longrightarrow> wellFormed (handleOpenEditModal doc s)"
proof -
  show "wellFormed (clickFolderCard c s)"
    using assms
    by (cases c) (simp_all add: wellFormed_def folderChosen_def clickFolderCard_def
        enumeratedFolders_def)
  show "wellFormed (clickBack s)"
    using assms by (simp add: wellFormed_def folderChosen_def clickBack_def)
  show "wellFormed (fetchDocuments s)"
    using assms
    by (auto simp: wellFormed_def folderChosen_def fetchDocuments_def
        getAllByUserIdAndFolder_def split: option.splits)
  show "wellFormed (updateAllCounts s)"
    using assms
    by (auto simp: wellFormed_def folderChosen_def updateAllCounts_def getAllByUserId_def
        split: option.splits prod.splits)
  show "wellFormed (handleFileChange chosen s)"
    using assms
    by (auto simp: wellFormed_def folderChosen_def handleFileChange_def split: option.splits)
  show "wellFormed (handleFileChange_part0 chosen s)"
    using assms
    by (auto simp: wellFormed_def folderChosen_def handleFileChange_part0_def
        split: option.splits)
  show "wellFormed (handleCloseEditModal s)"
    using assms by (simp add: wellFormed_def folderChosen_def handleCloseEditModal_def)
  show "doc \<in> set (documents s) \<Longrightarrow> wellFormed (handleOpenEditModal doc s)"
    using assms by (simp add: wellFormed_def folderChosen_def handleOpenEditModal_def)
qed

lemma upload_frame:
  "currentFolder (handleUploadDocument now readOk s) = currentFolder s"
  "editingDoc (handleUploadDocument now readOk s) = editingDoc s"
  "currentFolder (handleUploadDocument_part0 now readOk s) = currentFolder s"
  "editingDoc (handleUploadDocument_part0 now readOk s) = editingDoc s"
  by (simp_all add: handleUploadDocument_def handleUploadDocument_part0_def showMessage_def
      addItem_doc_def Let_def split: option.splits)

lemma upload_store:
  "docStore (idb (handleUploadDocument now readOk s)) = docStore (idb s)
   \<and> documents (handleUploadDocument now readOk s) = documents s
   \<or> (\<exists>f cf u D. selectedFile s = Some f \<and> currentFolder s = Some cf \<and> user s = Some u
        \<and> D = withId \<lparr>n_userId = s_id u, n_folder = cf, n_fileName = trim (newFileName s),
                n_originalFileName = f_name f, n_uploadDate = now,
                n_fileData = Some (f_content f), n_mimeType = f_type f,
                n_fileSize = Some (length (f_content f))\<rparr> (keyGen (idb s))
        \<and> docStore (idb (handleUploadDocument now readOk s)) = putRecord D (docStore (idb s))
        \<and> documents (handleUploadDocument now readOk s) = documents s @ [D])"
  by (simp add: handleUploadDocument_def showMessage_def addItem_doc_def f_size_def Let_def
      split: option.splits)

lemma upload_store_part0:
  "docStore (idb (handleUploadDocument_part0 now readOk s)) = docStore (idb s)
   \<and> documents (handleUploadDocument_part0 now readOk s) = documents s
   \<or> (\<exists>f cf u D. selectedFile s = Some f \<and> currentFolder s = Some cf \<and> user s = Some u
        \<and> D = withId \<lparr>n_userId = s_id u, n_folder = cf, n_fileName = newFileName s,
                n_originalFileName = f_name f, n_uploadDate = now,
                n_fileData = Some (f_content f), n_mimeType = f_type f,
                n_fileSize = Some (length (f_content f))\<rparr> (keyGen (idb s))
        \<and> docStore (idb (handleUploadDocument_part0 now readOk s))
            = putRecord D (docStore (idb s))
        \<and> documents (handleUploadDocument_part0 now readOk s) = documents s @ [D])"
  by (simp add: handleUploadDocument_part0_def showMessage_def addItem_doc_def f_size_def
      Let_def split: option.splits)

lemma wellFormed_after_add:
  assumes "wellFormed s"
    and "currentFolder s' = currentFolder s" and "editingDoc s' = editingDoc s"
    and "docStore (idb s') = docStore (idb s) \<and> documents s' = documents s
         \<or> (\<exists>D. docWritten D \<and> docStore (idb s') = putRecord D (docStore (idb s))
                \<and> documents s' = documents s @ [D])"
  shows "wellFormed s'"
proof -
  from assms(1) have k: "keyOrdered (docStore (idb s))"
    and st: "\<forall>x\<in>set (docStore (idb s)). docWritten x"
    and ds: "\<forall>x\<in>set (documents s). docWritten x"
    and ed: "case editingDoc s of None \<Rightarrow> True | Some d \<Rightarrow> docWritten d"
    and fc: "folderChosen s"
    by (simp_all add: wellFormed_def)
  from fc assms(2) have fc': "folderChosen s'" by (simp add: folderChosen_def)
  from ed assms(3) have ed': "case editingDoc s' of None \<Rightarrow> True | Some d \<Rightarrow> docWritten d"
    by simp
  from assms(4) show ?thesis
  proof
    assume "docStore (idb s') = docStore (idb s) \<and> documents s' = documents s"
    with k st ds ed' fc' show ?thesis by (simp add: wellFormed_def)
  next
    assume "\<exists>D. docWritten D \<and> docStore (idb s') = putRecord D (docStore (idb s))
                \<and> documents s' = documents s @ [D]"
    then obtain D where D: "docWritten D" "docStore (idb s') = putRecord D (docStore (idb s))"
      "documents s' = documents s @ [D]" by blast
    have "keyOrdered (docStore (idb s'))" unfolding D(2) by (rule keyOrdered_putRecord [OF k])
    moreover have "\<forall>x\<in>set (docStore (idb s')). docWritten x"
      unfolding D(2) by (rule putRecord_written [OF st D(1)])
    moreover have "\<forall>x\<in>set (documents s'). docWritten x"
      unfolding D(3) using ds D(1) by simp
    ultimately show ?thesis using ed' fc' by (simp add: wellFormed_def)
  qed
qed

lemma upload_keeps_wellFormed:
  assumes "wellFormed s"
  shows "wellFormed (handleUploadDocument now readOk s)"
    and "wellFormed (handleUploadDocument_part0 now readOk s)"
proof -
  have w: "\<And>cf u n orig t b m k. currentFolder s = Some cf \<Longrightarrow>
      docWritten
           (withId \<lparr>n_userId = u, n_folder = cf, n_fileName = n, n_originalFileName = orig,
                    n_uploadDate = t, n_fileData = Some b, n_mimeType = m,
                    n_fileSize = Some (length b)\<rparr> k)"
    using assms by (intro docWritten_upload) (simp add: wellFormed_def folderChosen_def)
  show "wellFormed (handleUploadDocument now readOk s)"
  proof (rule wellFormed_after_add [OF assms upload_frame(1) upload_frame(2)])
    from upload_store [of now readOk s] w
    show "docStore (idb (handleUploadDocument now readOk s)) = docStore (idb s)
            \<and> documents (handleUploadDocument now readOk s) = documents s
          \<or> (\<exists>D. docWritten D
                \<and> docStore (idb (handleUploadDocument now readOk s))
                    = putRecord D (docStore (idb s))
                \<and> documents (handleUploadDocument now readOk s) = documents s @ [D])"
      by blast
  qed
  show "wellFormed (handleUploadDocument_part0 now readOk s)"
  proof (rule wellFormed_after_add [OF assms upload_frame(3) upload_frame(4)])
    from upload_store_part0 [of now readOk s] w
    show "docStore (idb (handleUploadDocument_part0 now readOk s)) = docStore (idb s)
            \<and> documents (handleUploadDocument_part0 now readOk s) = documents s
          \<or> (\<exists>D. docWritten D
                \<and> docStore (idb (handleUploadDocument_part0 now readOk s))
                    = putRecord D (docStore (idb s))
                \<and> documents (handleUploadDocument_part0 now readOk s) = documents s @ [D])"
      by blast
  qed
qed

lemma delete_keeps_wellFormed:
  assumes "wellFormed s"
  shows "wellFormed (handleDeleteDocument confirm docId s)"
    and "wellFormed (handleDeleteDocument_part0 confirm docId s)"
  using assms
  by (auto simp: wellFormed_def folderChosen_def handleDeleteDocument_def
      handleDeleteDocument_part0_def showMessage_def deleteItem_def keyOrdered_filter
      split: option.splits)

lemma rename_keeps_wellFormed:
  assumes "wellFormed s"
  shows "wellFormed (handleUpdateDocumentName newName s)"
proof (cases "editingDoc s")
  case None
  with assms show ?thesis
    by (simp add: wellFormed_def folderChosen_def handleUpdateDocumentName_def showMessage_def)
next
  case (Some ed)
  with assms have e: "docWritten (ed\<lparr>fileName := trim newName\<rparr>)"
    by (simp add: wellFormed_def docWritten_fileName)
  from assms have st: "\<forall>x\<in>set (docStore (idb s)). docWritten x" by (simp add: wellFormed_def)
  show ?thesis
    using assms Some e putRecord_written [OF st e]
    by (auto simp: wellFormed_def folderChosen_def handleUpdateDocumentName_def
        handleCloseEditModal_def showMessage_def updateItem_def Let_def keyOrdered_putRecord)
qed

section \<open>Uploading a document\<close>

lemma upload_rejected_blank_name:
  assumes "trim (newFileName s) = []"
  shows "idb (handleUploadDocument now readOk s) = idb s"
  using assms
  by (auto simp: handleUploadDocument_def showMessage_def split: option.splits)

text \<open>The file input and an accepted upload: the record is added by the one request issued,
  after the read.\<close>

lemma file_chosen:
  "selectedFile (handleFileChange (Some f) s) = Some f"
  "newFileName (handleFileChange (Some f) s)
     = (if joinDot (butlast (splitDot (f_name f))) = [] then f_name f
        else joinDot (butlast (splitDot (f_name f))))"
  "user (handleFileChange (Some f) s) = user s"
  "currentFolder (handleFileChange (Some f) s) = currentFolder s"
  "idb (handleFileChange (Some f) s) = idb s"
  by (simp_all add: handleFileChange_def Let_def)

lemma upload_performed:
  assumes "selectedFile s = Some f" and "trim (newFileName s) = n" and "n \<noteq> []"
    and "currentFolder s = Some cf" and "cf \<noteq> []" and "user s = Some u"
  shows "user (handleUploadDocument now True s) = Some u"
    and "currentFolder (handleUploadDocument now True s) = Some cf"
    and "docStore (idb (handleUploadDocument now True s))
           = putRecord
               \<lparr>d_id = keyGen (idb s), userId = s_id u, folder = cf, fileName = n,
                originalFileName = f_name f, uploadDate = now,
                fileData = Some (f_content f), mimeType = f_type f,
                fileSize = Some (length (f_content f))\<rparr> (docStore (idb s))"
    and "keyGen (idb (handleUploadDocument now True s)) = keyGen (idb s) + 1"
    and "requests (idb (handleUploadDocument now True s)) = requests (idb s) @ [ReqAdd DOC_STORE]"
  using assms
  by (simp_all add: handleUploadDocument_def showMessage_def truthy_def addItem_doc_def
      withId_def f_size_def Let_def)

text \<open>The states the samples pass through.\<close>

lemma folderApp_fields:
  "user folderApp = Some \<lparr>s_id = ''ani@x.id'', s_email = ''ani@x.id''\<rparr>"
  "currentFolder folderApp = Some ''Lainnya''"
  "docStore (idb folderApp) = []" "keyGen (idb folderApp) = 1" "documents folderApp = []"
  by (simp_all add: folderApp_def clickFolderCard_def handleLogin_def handleRegister_def
      typeCredentials_def showMessage_def getItem_def addItem_def initialApp_def emptyDb_def
      Let_def)

lemma chosen_names:
  "newFileName (handleFileChange (Some hugeFile) s) = ''disk''"
  "newFileName (handleFileChange (Some sampleFile) s) = ''cv''"
  "trim ''disk'' = ''disk''" "trim ''cv'' = ''cv''"
  by (simp_all add: file_chosen hugeFile_def sampleFile_def trim_def isWhiteSpace_def)

text \<open>A record written by an upload carries the length of its payload as \<^verbatim>\<open>fileSize\<close>, so
  the aggregate counts it with the size the specification names.\<close>

lemma uploaded_size:
  assumes "n_fileData n = Some b" and "n_fileSize n = Some (length b)"
  shows "docSize (withId n k) = length b" and "specSize (withId n k) = length b"
  using assms by (simp_all add: docSize_def specSize_def byteLength_def withId_def)

lemma upload_needs_folder:
  assumes "folderChosen s" and "currentFolder s \<notin> Some ` set enumeratedFolders"
  shows "currentFolder s = None"
  using assms by (cases "currentFolder s") (simp_all add: folderChosen_def)

text \<open>
  Claim C9. \<open>s\<close> is a state of the interface: its current folder is \<^verbatim>\<open>null\<close> or one of the
  three names of the folder cards, the only values \<^verbatim>\<open>setCurrentFolder\<close> is ever called with.
  An upload (either variant of the handler) issues no request to the store, leaves the store
  and the displayed documents as they are, and with them no partial record, when no file was
  chosen, when the display name is empty, when the folder is not one of the three, when
  nobody is logged in, and when the file cannot be read: the record is built and added only
  in \<^verbatim>\<open>onload\<close>. In the first four cases the handler shows its message for an incomplete
  form and starts no read.
\<close>

theorem upload_rejected:
  assumes "folderChosen s"
    and "selectedFile s = None \<or> newFileName s = []
         \<or> currentFolder s \<notin> Some ` set enumeratedFolders \<or> user s = None \<or> \<not> readOk"
  shows "idb (handleUploadDocument now readOk s) = idb s
         \<and> documents (handleUploadDocument now readOk s) = documents s
         \<and> idb (handleUploadDocument_part0 now readOk s) = idb s
         \<and> documents (handleUploadDocument_part0 now readOk s) = documents s
         \<and> (selectedFile s = None \<or> newFileName s = []
              \<or> currentFolder s \<notin> Some ` set enumeratedFolders \<or> user s = None
            \<longrightarrow> handleUploadDocument now readOk s
                  = showMessage ''Harap lengkapi semua field.'' ''error'' s
                \<and> handleUploadDocument_part0 now readOk s
                  = showMessage
                      ''Pastikan Anda login, pilih file, masukkan nama dokumen, dan pilih folder.''
                      ''error'' s)"
proof -
  from assms have c: "selectedFile s = None \<or> newFileName s = [] \<or> currentFolder s = None
      \<or> user s = None \<or> \<not> readOk"
    using upload_needs_folder by blast
  have f: "currentFolder s \<notin> Some ` set enumeratedFolders \<Longrightarrow> currentFolder s = None"
    by (rule upload_needs_folder [OF assms(1)])
  from c have a: "idb (handleUploadDocument now readOk s) = idb s"
    "documents (handleUploadDocument now readOk s) = documents s"
    by (auto simp: handleUploadDocument_def showMessage_def truthy_def trim_Nil
        split: option.splits)
  from c have b: "idb (handleUploadDocument_part0 now readOk s) = idb s"
    "documents (handleUploadDocument_part0 now readOk s) = documents s"
    by (auto simp: handleUploadDocument_part0_def showMessage_def truthy_def
        split: option.splits)
  have m: "handleUploadDocument now readOk s
             = showMessage ''Harap lengkapi semua field.'' ''error'' s"
    if "selectedFile s = None \<or> newFileName s = [] \<or> currentFolder s = None \<or> user s = None"
    using that
    by (auto simp: handleUploadDocument_def truthy_def trim_Nil split: option.splits)
  have n: "handleUploadDocument_part0 now readOk s
             = showMessage
                 ''Pastikan Anda login, pilih file, masukkan nama dokumen, dan pilih folder.''
                 ''error'' s"
    if "selectedFile s = None \<or> newFileName s = [] \<or> currentFolder s = None \<or> user s = None"
    using that
    by (auto simp: handleUploadDocument_part0_def truthy_def split: option.splits)
  from a b m n f show ?thesis by blast
qed

theorem upload_rejected_witness:
  "folderChosen sampleApp
   \<and> selectedFile sampleApp = None
   \<and> idb (handleUploadDocument 0 True sampleApp) = idb sampleApp
   \<and> idb (handleUploadDocument_part0 0 True sampleApp) = idb sampleApp
   \<and> message (handleUploadDocument 0 True sampleApp) = ''Harap lengkapi semua field.''
   \<and> folderChosen (handleFileChange (Some sampleFile) sampleApp)
   \<and> selectedFile (handleFileChange (Some sampleFile) sampleApp) = Some sampleFile
   \<and> newFileName (handleFileChange (Some sampleFile) sampleApp) = ''cv''
   \<and> currentFolder (handleFileChange (Some sampleFile) sampleApp) = None
   \<and> idb (handleUploadDocument 0 True (handleFileChange (Some sampleFile) sampleApp))
       = idb sampleApp
   \<and> idb (handleUploadDocument_part0 0 True (handleFileChange (Some sampleFile) sampleApp))
       = idb sampleApp
   \<and> folderChosen (handleFileChange (Some sampleFile) folderApp)
   \<and> currentFolder (handleFileChange (Some sampleFile) folderApp) = Some ''Lainnya''
   \<and> docStore (idb (handleUploadDocument 0 False (handleFileChange (Some sampleFile) folderApp)))
       = []
   \<and> docStore
        (idb (handleUploadDocument_part0 0 False (handleFileChange (Some sampleFile) folderApp)))
       = []"
proof -
  let ?a = "handleFileChange (Some sampleFile) sampleApp"
  let ?b = "handleFileChange (Some sampleFile) folderApp"
  have s: "selectedFile sampleApp = None" "currentFolder sampleApp = None"
    by (simp_all add: sampleApp_def initialApp_def)
  have fc: "folderChosen sampleApp" "folderChosen ?a" "folderChosen ?b"
    by (simp_all add: folderChosen_def file_chosen s folderApp_fields enumeratedFolders_def)
  have h1: "selectedFile sampleApp = None \<or> newFileName sampleApp = []
      \<or> currentFolder sampleApp \<notin> Some ` set enumeratedFolders \<or> user sampleApp = None
      \<or> \<not> True"
    by (simp add: s)
  have h2: "selectedFile ?a = None \<or> newFileName ?a = []
      \<or> currentFolder ?a \<notin> Some ` set enumeratedFolders \<or> user ?a = None \<or> \<not> True"
    by (simp add: file_chosen(1,3,4,5) s)
  have h3: "selectedFile ?b = None \<or> newFileName ?b = []
      \<or> currentFolder ?b \<notin> Some ` set enumeratedFolders \<or> user ?b = None \<or> \<not> False"
    by simp
  show ?thesis
    using fc upload_rejected [OF fc(1) h1, of 0] upload_rejected [OF fc(2) h2, of 0]
      upload_rejected [OF fc(3) h3, of 0]
    by (simp add: s file_chosen(1,3,4,5) chosen_names folderApp_fields showMessage_def)
qed

section \<open>Aggregates\<close>

subsection \<open>Sums of byte counts as doubles\<close>

lemma floorLog_2_53: "floorLog 2 9007199254740992 = 53" "floorLog 2 9007199254740993 = 53"
  by (simp_all add: floorLog.simps)

lemma roundToDouble_exact:
  assumes "n \<le> 2 ^ 53"
  shows "roundToDouble n = n"
proof (cases "n < 2 ^ 53")
  case True
  then show ?thesis by (simp add: roundToDouble_def)
next
  case False
  with assms have "n = 9007199254740992" by simp
  then show ?thesis by (simp add: roundToDouble_def floorLog_2_53 Let_def)
qed

lemma roundToDouble_tie: "roundToDouble 9007199254740993 = 9007199254740992"
  by (simp add: roundToDouble_def floorLog_2_53 Let_def)

lemma addNumber_exact:
  assumes "a + x \<le> 2 ^ 53"
  shows "addNumber (Num a) x = Num (a + x)"
proof -
  have "a + x < 2 ^ 1024"
  proof -
    have "(2::nat) ^ 53 < 2 ^ 1024" by (rule power_strict_increasing) simp_all
    with assms show ?thesis by simp
  qed
  then show ?thesis by (simp add: addNumber_def roundToDouble_exact [OF assms] Let_def)
qed

lemma foldl_addNumber_exact:
  assumes "a + sum_list xs \<le> 2 ^ 53"
  shows "foldl addNumber (Num a) xs = Num (a + sum_list xs)"
  using assms
proof (induction xs arbitrary: a)
  case Nil
  then show ?case by simp
next
  case (Cons x xs)
  from Cons.prems have "a + x \<le> 2 ^ 53" and "(a + x) + sum_list xs \<le> 2 ^ 53" by simp_all
  then show ?case by (simp add: addNumber_exact Cons.IH add.assoc)
qed

lemma docSize_recorded: "sizeRecorded d \<Longrightarrow> docSize d = specSize d"
  by (auto simp: sizeRecorded_def docSize_def specSize_def byteLength_def split: option.splits)

subsection \<open>What the pass over a user's documents computes\<close>

lemma countStep_pair:
  "countStep (c, t) d =
     ((case c (folder d) of Some n \<Rightarrow> c(folder d \<mapsto> n + 1) | None \<Rightarrow> c),
      addNumber t (docSize d))"
  by (simp add: countStep_def)

lemma foldl_countStep:
  "foldl countStep (c, t) docs =
     ((\<lambda>f. case c f of None \<Rightarrow> None
                        | Some n \<Rightarrow> Some (n + length (filter (\<lambda>d. folder d = f) docs))),
      foldl addNumber t (map docSize docs))"
proof (induction docs arbitrary: c t)
  case Nil
  have e: "(\<lambda>f. case c f of None \<Rightarrow> None
              | Some n \<Rightarrow> Some (n + length (filter (\<lambda>d. folder d = f) []))) = c"
    by (rule ext) (simp split: option.splits)
  show ?case unfolding e by simp
next
  case (Cons d docs)
  let ?c' = "case c (folder d) of Some n \<Rightarrow> c(folder d \<mapsto> n + 1) | None \<Rightarrow> c"
  have "foldl countStep (c, t) (d # docs)
          = foldl countStep (?c', addNumber t (docSize d)) docs"
    by (simp add: countStep_pair)
  also have "\<dots> = ((\<lambda>f. case ?c' f of None \<Rightarrow> None
                        | Some n \<Rightarrow> Some (n + length (filter (\<lambda>d. folder d = f) docs))),
                  foldl addNumber (addNumber t (docSize d)) (map docSize docs))"
    by (rule Cons.IH)
  also have "(\<lambda>f. case ?c' f of None \<Rightarrow> None
                   | Some n \<Rightarrow> Some (n + length (filter (\<lambda>d. folder d = f) docs)))
             = (\<lambda>f. case c f of None \<Rightarrow> None
                   | Some n \<Rightarrow> Some (n + length (filter (\<lambda>d. folder d = f) (d # docs))))"
    by (rule ext) (simp split: option.splits)
  finally show ?case by simp
qed

lemma initialCounts_apply:
  "initialCounts f = (if f \<in> set enumeratedFolders then Some 0 else None)"
  by (simp add: initialCounts_def enumeratedFolders_def)

lemma foldl_countStep_initial:
  "foldl countStep (initialCounts, Num 0) docs =
     ((\<lambda>f. if f \<in> set enumeratedFolders
           then Some (length (filter (\<lambda>d. folder d = f) docs)) else None),
      foldl addNumber (Num 0) (map docSize docs))"
proof -
  have "(\<lambda>f. case initialCounts f of None \<Rightarrow> None
              | Some n \<Rightarrow> Some (n + length (filter (\<lambda>d. folder d = f) docs)))
        = (\<lambda>f. if f \<in> set enumeratedFolders
              then Some (length (filter (\<lambda>d. folder d = f) docs)) else None)"
    by (rule ext) (simp add: initialCounts_apply)
  then show ?thesis by (simp add: foldl_countStep)
qed

lemma updateAllCounts_eq:
  assumes "user s = Some u"
  shows "updateAllCounts s =
     s\<lparr>idb := (idb s)\<lparr>requests := requests (idb s) @ [ReqGetAll DOC_STORE ''userId'']\<rparr>,
       folderCounts :=
         (\<lambda>f. if f \<in> set enumeratedFolders
              then Some (length (filter (\<lambda>d. folder d = f) (listAll (s_id u) (idb s))))
              else None),
       totalDocsCount := length (listAll (s_id u) (idb s)),
       totalStorageUsed := foldl addNumber (Num 0) (map docSize (listAll (s_id u) (idb s)))\<rparr>"
  using assms unfolding listAll_def getAllByUserId_def snd_conv
  by (simp add: updateAllCounts_def getAllByUserId_def foldl_countStep_initial)

lemma length_by_folder:
  assumes "\<forall>d\<in>set L. folder d \<in> set enumeratedFolders"
  shows "length (filter (\<lambda>d. folder d = ''Pendidikan'') L)
         + length (filter (\<lambda>d. folder d = ''Pribadi'') L)
         + length (filter (\<lambda>d. folder d = ''Lainnya'') L) = length L"
  using assms by (induction L) (auto simp: enumeratedFolders_def)

lemma total_exact:
  assumes "user s = Some u"
    and "\<forall>x\<in>set (listAll (s_id u) (idb s)). sizeRecorded x"
    and "sum_list (map specSize (listAll (s_id u) (idb s))) \<le> 2 ^ 53"
  shows "totalStorageUsed (updateAllCounts s)
           = Num (sum_list (map specSize (listAll (s_id u) (idb s))))"
proof -
  have m: "map docSize (listAll (s_id u) (idb s)) = map specSize (listAll (s_id u) (idb s))"
    by (rule map_cong [OF refl]) (use assms(2) in \<open>simp add: docSize_recorded\<close>)
  have "foldl addNumber (Num 0) (map specSize (listAll (s_id u) (idb s)))
          = Num (0 + sum_list (map specSize (listAll (s_id u) (idb s))))"
    by (rule foldl_addNumber_exact) (use assms(3) in simp)
  then show ?thesis by (simp add: updateAllCounts_eq [OF assms(1)] m)
qed

text \<open>
  Claim C2, as the code has it. The store of \<open>s\<close> is one the handlers can produce: a
  \<^verbatim>\<open>fileSize\<close>, where a record has one, is the byte length of its payload. For a session
  user \<open>u\<close>, one run of \<^verbatim>\<open>updateAllCounts\<close> reads \<open>listAll u\<close> (the stored documents whose
  \<^verbatim>\<open>userId\<close> is \<open>u\<close>) and sets: the total count to their number; the count of each of the
  three folders to the number of them in that folder, so that the three counts sum to the
  total when every document of \<open>u\<close> is in one of the three folders; and the total bytes to
  the sum of their sizes, \<^verbatim>\<open>fileSize\<close> or, for a record without one, the byte length of its
  payload. The sum is the exact one as long as it is at most \<open>2 ^ 53\<close>: up to there every
  partial sum is a double.
\<close>

theorem aggregation_pass:
  assumes "user s = Some u"
    and "\<forall>x\<in>set (docStore (idb s)). sizeRecorded x"
    and "sum_list (map specSize (listAll (s_id u) (idb s))) \<le> 2 ^ 53"
  shows "let L = listAll (s_id u) (idb s); s' = updateAllCounts s
         in filter (\<lambda>d. userId d = s_id u) (docStore (idb s)) = L
            \<and> totalDocsCount s' = length L
            \<and> (keyOrdered (docStore (idb s)) \<longrightarrow>
                  totalDocsCount s' = card {d \<in> set (docStore (idb s)). userId d = s_id u})
            \<and> (\<forall>f\<in>set enumeratedFolders.
                  readCount (folderCounts s') f = length (filter (\<lambda>d. folder d = f) L))
            \<and> ((\<forall>d\<in>set L. folder d \<in> set enumeratedFolders) \<longrightarrow>
                  sum_list (map (readCount (folderCounts s')) enumeratedFolders)
                    = totalDocsCount s')
            \<and> totalStorageUsed s' = Num (sum_list (map specSize L))"
proof -
  define L where "L = listAll (s_id u) (idb s)"
  define s' where "s' = updateAllCounts s"
  have a: "L = filter (\<lambda>d. userId d = s_id u) (docStore (idb s))"
    by (simp add: L_def listAll_def getAllByUserId_def)
  have cnt: "totalDocsCount s' = length L"
    "folderCounts s' = (\<lambda>f. if f \<in> set enumeratedFolders
              then Some (length (filter (\<lambda>d. folder d = f) L)) else None)"
    unfolding s'_def L_def by (simp_all add: updateAllCounts_eq [OF assms(1)])
  have c: "\<forall>f\<in>set enumeratedFolders.
             readCount (folderCounts s') f = length (filter (\<lambda>d. folder d = f) L)"
    by (simp add: cnt readCount_def)
  have d: "(\<forall>d\<in>set L. folder d \<in> set enumeratedFolders) \<longrightarrow>
             sum_list (map (readCount (folderCounts s')) enumeratedFolders) = totalDocsCount s'"
  proof
    assume h: "\<forall>d\<in>set L. folder d \<in> set enumeratedFolders"
    have "sum_list (map (readCount (folderCounts s')) enumeratedFolders)
          = length (filter (\<lambda>d. folder d = ''Pendidikan'') L)
            + length (filter (\<lambda>d. folder d = ''Pribadi'') L)
            + length (filter (\<lambda>d. folder d = ''Lainnya'') L)"
      by (simp add: cnt readCount_def enumeratedFolders_def)
    then show "sum_list (map (readCount (folderCounts s')) enumeratedFolders) = totalDocsCount s'"
      using length_by_folder [OF h] cnt(1) by simp
  qed
  have e: "totalStorageUsed s' = Num (sum_list (map specSize L))"
    unfolding s'_def L_def
    by (rule total_exact [OF assms(1) _ assms(3)])
       (use assms(2) in \<open>simp add: listAll_def getAllByUserId_def\<close>)
  have g: "keyOrdered (docStore (idb s)) \<longrightarrow>
             totalDocsCount s' = card {d \<in> set (docStore (idb s)). userId d = s_id u}"
  proof
    assume "keyOrdered (docStore (idb s))"
    then have "distinct (docStore (idb s))"
      using keyOrdered_distinct distinct_map by blast
    then have "length L = card {d \<in> set (docStore (idb s)). userId d = s_id u}"
      unfolding a by (simp add: distinct_length_filter Collect_conj_eq Int_commute)
    with cnt(1) show "totalDocsCount s' = card {d \<in> set (docStore (idb s)). userId d = s_id u}"
      by simp
  qed
  from a [symmetric] cnt(1) c d e g show ?thesis
    unfolding Let_def L_def [symmetric] s'_def [symmetric] by blast
qed

theorem aggregation_pass_witness:
  "user sampleApp = Some \<lparr>s_id = ''ani@x.id'', s_email = ''ani@x.id''\<rparr>
   \<and> map sizeRecorded (docStore (idb sampleApp)) = [True, True, True]
   \<and> keyOrdered (docStore (idb sampleApp))
   \<and> map folder (listAll ''ani@x.id'' (idb sampleApp)) = [''Pendidikan'', ''Pribadi'']
   \<and> map fileSize (listAll ''ani@x.id'' (idb sampleApp)) = [Some 3, None]
   \<and> sum_list (map specSize (listAll ''ani@x.id'' (idb sampleApp))) = 5
   \<and> totalDocsCount (updateAllCounts sampleApp) = 2
   \<and> sum_list (map (readCount (folderCounts (updateAllCounts sampleApp))) enumeratedFolders) = 2
   \<and> totalStorageUsed (updateAllCounts sampleApp) = Num 5"
proof -
  have r: "\<forall>x\<in>set (docStore (idb sampleApp)). sizeRecorded x"
    using wellFormed_sample by (simp add: wellFormed_def docWritten_def)
  have b: "sum_list (map specSize (listAll (s_id \<lparr>s_id = ''ani@x.id'', s_email = ''ani@x.id''\<rparr>)
             (idb sampleApp))) \<le> 2 ^ 53"
    by (simp add: sample_listAll sample_sizes)
  have f: "\<forall>d\<in>set (listAll ''ani@x.id'' (idb sampleApp)). folder d \<in> set enumeratedFolders"
    by (simp add: sample_listAll enumeratedFolders_def sampleDoc1_def sampleDoc2_def)
  have m: "map folder (listAll ''ani@x.id'' (idb sampleApp)) = [''Pendidikan'', ''Pribadi'']"
    "map fileSize (listAll ''ani@x.id'' (idb sampleApp)) = [Some 3, None]"
    by (simp_all add: sample_listAll sampleDoc1_def sampleDoc2_def)
  have n: "sum_list (map specSize (listAll ''ani@x.id'' (idb sampleApp))) = 5"
    by (simp add: sample_listAll sample_sizes)
  have "totalDocsCount (updateAllCounts sampleApp) = 2
        \<and> sum_list (map (readCount (folderCounts (updateAllCounts sampleApp))) enumeratedFolders)
            = 2
        \<and> totalStorageUsed (updateAllCounts sampleApp) = Num 5"
    using f aggregation_pass [OF sample_user r b]
    by (simp add: Let_def sample_listAll sample_sizes)
  moreover have "map sizeRecorded (docStore (idb sampleApp)) = [True, True, True]"
    by (simp add: sampleApp_def sampleDb_def sizeRecorded_def byteLength_def sampleDoc1_def
        sampleDoc2_def sampleDoc3_def)
  ultimately show ?thesis using m n sample_keyOrdered sample_user by simp
qed

subsection \<open>The sample with a large file\<close>

lemma huge_length: "length hugePayload = 9007199254740991"
  by (simp only: hugePayload_def length_replicate)

lemma huge_first_upload:
  "user (handleUploadDocument 1000 True (handleFileChange (Some hugeFile) folderApp))
     = Some \<lparr>s_id = ''ani@x.id'', s_email = ''ani@x.id''\<rparr>"
  "currentFolder (handleUploadDocument 1000 True (handleFileChange (Some hugeFile) folderApp))
     = Some ''Lainnya''"
  "docStore (idb (handleUploadDocument 1000 True (handleFileChange (Some hugeFile) folderApp)))
     = [hugeDoc]"
  "keyGen (idb (handleUploadDocument 1000 True (handleFileChange (Some hugeFile) folderApp)))
     = 2"
proof -
  let ?s = "handleFileChange (Some hugeFile) folderApp"
  have a: "selectedFile ?s = Some hugeFile" "trim (newFileName ?s) = ''disk''"
    "''disk'' \<noteq> []" "currentFolder ?s = Some ''Lainnya''" "''Lainnya'' \<noteq> []"
    "user ?s = Some \<lparr>s_id = ''ani@x.id'', s_email = ''ani@x.id''\<rparr>"
    by (simp_all add: file_chosen(1,3,4) chosen_names folderApp_fields)
  note p = upload_performed [OF a, of 1000]
  show "user (handleUploadDocument 1000 True ?s)
          = Some \<lparr>s_id = ''ani@x.id'', s_email = ''ani@x.id''\<rparr>"
    by (rule p(1))
  show "currentFolder (handleUploadDocument 1000 True ?s) = Some ''Lainnya''"
    by (rule p(2))
  show "docStore (idb (handleUploadDocument 1000 True ?s)) = [hugeDoc]"
    unfolding p(3)
    by (simp add: file_chosen(5) folderApp_fields hugeFile_def hugeDoc_def huge_length)
  show "keyGen (idb (handleUploadDocument 1000 True ?s)) = 2"
    unfolding p(4) by (simp add: file_chosen(5) folderApp_fields)
qed

lemma huge_store:
  "user hugeApp = Some \<lparr>s_id = ''ani@x.id'', s_email = ''ani@x.id''\<rparr>"
  "docStore (idb hugeApp) = [hugeDoc, smallDoc]"
proof -
  let ?m = "handleUploadDocument 1000 True (handleFileChange (Some hugeFile) folderApp)"
  let ?s = "handleFileChange (Some sampleFile) ?m"
  have a: "selectedFile ?s = Some sampleFile" "trim (newFileName ?s) = ''cv''"
    "''cv'' \<noteq> []" "currentFolder ?s = Some ''Lainnya''" "''Lainnya'' \<noteq> []"
    "user ?s = Some \<lparr>s_id = ''ani@x.id'', s_email = ''ani@x.id''\<rparr>"
    by (simp_all add: file_chosen(1,3,4) chosen_names huge_first_upload)
  note p = upload_performed [OF a, of 2000]
  have k: "d_id hugeDoc = 1" by (simp add: hugeDoc_def)
  show "user hugeApp = Some \<lparr>s_id = ''ani@x.id'', s_email = ''ani@x.id''\<rparr>"
    unfolding hugeApp_def by (rule p(1))
  show "docStore (idb hugeApp) = [hugeDoc, smallDoc]"
    unfolding hugeApp_def p(3)
    by (simp add: file_chosen(5) huge_first_upload sampleFile_def smallDoc_def k)
qed

lemma huge_listAll: "listAll ''ani@x.id'' (idb hugeApp) = [hugeDoc, smallDoc]"
  by (simp add: listAll_def getAllByUserId_def huge_store)
     (simp add: hugeDoc_def smallDoc_def)

lemma huge_sizes:
  "docSize hugeDoc = 9007199254740991" "docSize smallDoc = 2"
  "specSize hugeDoc = 9007199254740991" "specSize smallDoc = 2"
  by (simp_all add: docSize_def specSize_def hugeDoc_def smallDoc_def)

lemma huge_wellFormed: "wellFormed hugeApp"
  unfolding hugeApp_def folderApp_def
  by (intro upload_keeps_wellFormed(1) navigation_keeps_wellFormed(5)
      navigation_keeps_wellFormed(1) accounts_keep_wellFormed(3) accounts_keep_wellFormed(1)
      accounts_keep_wellFormed(2) wellFormed_initial)

lemma huge_sum: "addNumber (addNumber (Num 0) 9007199254740991) 2 = Num 9007199254740992"
proof -
  have a: "addNumber (Num 0) 9007199254740991 = Num 9007199254740991"
    using addNumber_exact [of 0 9007199254740991] by simp
  have b: "addNumber (Num 9007199254740991) 2 = Num 9007199254740992"
    by (simp add: addNumber_def roundToDouble_tie Let_def)
  show ?thesis by (simp only: a b)
qed

lemma huge_total: "totalStorageUsed (updateAllCounts hugeApp) = Num 9007199254740992"
  by (simp add: updateAllCounts_eq [OF huge_store(1)] huge_listAll huge_sizes huge_sum)

text \<open>
  Claim C2 as stated fails once the sizes sum past \<open>2 ^ 53\<close>. After the uploads of a file of
  \<open>2 ^ 53 - 1\<close> bytes and of one of 2 bytes into the third folder, the sum of the two
  \<^verbatim>\<open>fileSize\<close> is \<open>2 ^ 53 + 1\<close>, which is no double: the pass gives \<open>2 ^ 53\<close>.
\<close>

theorem aggregation_rounding_counterexample:
  "wellFormed hugeApp
   \<and> user hugeApp = Some \<lparr>s_id = ''ani@x.id'', s_email = ''ani@x.id''\<rparr>
   \<and> listAll ''ani@x.id'' (idb hugeApp) = [hugeDoc, smallDoc]
   \<and> map folder [hugeDoc, smallDoc] = [''Lainnya'', ''Lainnya'']
   \<and> map fileSize [hugeDoc, smallDoc] = [Some 9007199254740991, Some 2]
   \<and> sum_list (map specSize (listAll ''ani@x.id'' (idb hugeApp))) = 9007199254740993
   \<and> totalStorageUsed (updateAllCounts hugeApp) = Num 9007199254740992"
proof -
  have "map folder [hugeDoc, smallDoc] = [''Lainnya'', ''Lainnya'']"
    "map fileSize [hugeDoc, smallDoc] = [Some 9007199254740991, Some 2]"
    by (simp_all add: hugeDoc_def smallDoc_def)
  moreover have "sum_list (map specSize (listAll ''ani@x.id'' (idb hugeApp))) = 9007199254740993"
    by (simp add: huge_listAll huge_sizes)
  ultimately show ?thesis
    using huge_wellFormed huge_store(1) huge_listAll huge_total by simp
qed

subsection \<open>Deleting a document and the aggregates\<close>

lemma filter_key_eq:
  assumes "distinct (map d_id L)" and "d \<in> set L"
  shows "filter (\<lambda>x. d_id x \<noteq> d_id d) L = filter (\<lambda>x. x \<noteq> d) L"
proof (rule filter_cong [OF refl])
  fix x assume "x \<in> set L"
  with assms show "(d_id x \<noteq> d_id d) = (x \<noteq> d)"
    by (auto simp: distinct_map dest: inj_onD)
qed

lemma sum_list_remove_key:
  assumes "distinct (map d_id L)" and "d \<in> set L"
  shows "sum_list (map g (filter (\<lambda>x. d_id x \<noteq> d_id d) L)) + g d
           = (sum_list (map g L) :: nat)"
  using assms
proof (induction L)
  case Nil
  then show ?case by simp
next
  case (Cons x L)
  show ?case
  proof (cases "x = d")
    case True
    with Cons.prems have "d_id d \<notin> d_id ` set L" by simp
    then have "\<forall>y\<in>set L. d_id y \<noteq> d_id d" by (metis imageI)
    then have "filter (\<lambda>x. d_id x \<noteq> d_id d) L = L" by (simp add: filter_id_conv)
    with True show ?thesis by simp
  next
    case False
    with Cons.prems have "d \<in> set L" "distinct (map d_id L)" "d_id x \<noteq> d_id d" by auto
    with Cons.IH show ?thesis by simp
  qed
qed

lemma length_filter_sum:
  "length (filter P L) = sum_list (map (\<lambda>x. if P x then 1 else 0) L)"
  by (induction L) auto

lemma length_remove_key:
  assumes "distinct (map d_id L)" and "d \<in> set L"
  shows "length (filter P (filter (\<lambda>x. d_id x \<noteq> d_id d) L)) + (if P d then 1 else 0)
           = length (filter P L)"
proof -
  have "filter P (filter (\<lambda>x. d_id x \<noteq> d_id d) L) = filter (\<lambda>x. d_id x \<noteq> d_id d) (filter P L)"
    by (induction L) auto
  then have "length (filter P (filter (\<lambda>x. d_id x \<noteq> d_id d) L))
      = sum_list (map (\<lambda>x. if P x then 1 else 0) (filter (\<lambda>x. d_id x \<noteq> d_id d) L))"
    by (simp only: length_filter_sum [of P] filter_filter conj_commute)
       (induction L, auto)
  then show ?thesis
    using sum_list_remove_key [OF assms, of "\<lambda>x. if P x then 1 else 0"]
    by (simp add: length_filter_sum [of P L])
qed

lemma aggregates_after_removal:
  assumes ko: "keyOrdered (docStore (idb s))"
    and sr: "\<forall>x\<in>set (docStore (idb s)). sizeRecorded x"
    and u: "user s = Some u"
    and mem: "d \<in> set (docStore (idb s))"
    and own: "userId d = s_id u"
    and bound: "sum_list (map specSize (listAll (s_id u) (idb s))) \<le> 2 ^ 53"
    and u': "user t = Some u"
    and del: "docStore (idb t) = filter (\<lambda>x. d_id x \<noteq> d_id d) (docStore (idb s))"
  shows "d_id d \<notin> d_id ` set (listAll (s_id u) (idb t))"
    and "d_id d \<notin> d_id ` set (listByFolder (s_id u) (folder d) (idb t))"
    and "listAll (s_id u) (idb t) = filter (\<lambda>x. x \<noteq> d) (listAll (s_id u) (idb s))"
    and "listByFolder (s_id u) (folder d) (idb t)
           = filter (\<lambda>x. x \<noteq> d) (listByFolder (s_id u) (folder d) (idb s))"
    and "totalDocsCount (updateAllCounts s) = totalDocsCount (updateAllCounts t) + 1"
    and "totalStorageUsed (updateAllCounts s)
           = Num (sum_list (map specSize (listAll (s_id u) (idb s))))"
    and "totalStorageUsed (updateAllCounts t)
           = Num (sum_list (map specSize (listAll (s_id u) (idb s))) - specSize d)"
    and "specSize d \<le> sum_list (map specSize (listAll (s_id u) (idb s)))"
    and "readCount (folderCounts (updateAllCounts s)) f
           = readCount (folderCounts (updateAllCounts t)) f
             + (if f = folder d \<and> f \<in> set enumeratedFolders then 1 else 0)"
    and "docStore (idb (updateAllCounts t)) = filter (\<lambda>x. x \<noteq> d) (docStore (idb s))"
proof -
  let ?D = "docStore (idb s)"
  let ?L = "listAll (s_id u) (idb s)"
  have dist: "distinct (map d_id ?D)" by (rule keyOrdered_distinct [OF ko])
  have L: "?L = filter (\<lambda>x. userId x = s_id u) ?D"
    by (simp add: listAll_def getAllByUserId_def)
  have distL: "distinct (map d_id ?L)" unfolding L by (rule distinct_map_filter [OF dist])
  have memL: "d \<in> set ?L" unfolding L using mem own by simp
  have L': "listAll (s_id u) (idb t) = filter (\<lambda>x. d_id x \<noteq> d_id d) ?L"
    unfolding L by (simp add: listAll_def getAllByUserId_def del conj_commute)
  show "d_id d \<notin> d_id ` set (listAll (s_id u) (idb t))"
    unfolding L' by auto
  show "d_id d \<notin> d_id ` set (listByFolder (s_id u) (folder d) (idb t))"
    by (auto simp: listByFolder_def getAllByUserIdAndFolder_def del)
  show "listAll (s_id u) (idb t) = filter (\<lambda>x. x \<noteq> d) ?L"
    unfolding L' by (rule filter_key_eq [OF distL memL])
  have F: "listByFolder (s_id u) (folder d) (idb s)
             = filter (\<lambda>x. userId x = s_id u \<and> folder x = folder d) ?D"
    by (simp add: listByFolder_def getAllByUserIdAndFolder_def)
  have "listByFolder (s_id u) (folder d) (idb t)
          = filter (\<lambda>x. d_id x \<noteq> d_id d) (listByFolder (s_id u) (folder d) (idb s))"
    unfolding F by (simp add: listByFolder_def getAllByUserIdAndFolder_def del conj_commute)
  also have "\<dots> = filter (\<lambda>x. x \<noteq> d) (listByFolder (s_id u) (folder d) (idb s))"
    unfolding F
    by (rule filter_key_eq [OF distinct_map_filter [OF dist]]) (use mem own in simp)
  finally show "listByFolder (s_id u) (folder d) (idb t)
           = filter (\<lambda>x. x \<noteq> d) (listByFolder (s_id u) (folder d) (idb s))" .
  have cs: "totalDocsCount (updateAllCounts s) = length ?L"
    "readCount (folderCounts (updateAllCounts s)) f
       = (if f \<in> set enumeratedFolders then length (filter (\<lambda>x. folder x = f) ?L) else 0)"
    by (simp_all add: updateAllCounts_eq [OF u] readCount_def)
  have ct: "totalDocsCount (updateAllCounts t) = length (filter (\<lambda>x. d_id x \<noteq> d_id d) ?L)"
    "readCount (folderCounts (updateAllCounts t)) f
       = (if f \<in> set enumeratedFolders
          then length (filter (\<lambda>x. folder x = f) (filter (\<lambda>x. d_id x \<noteq> d_id d) ?L)) else 0)"
    "docStore (idb (updateAllCounts t)) = docStore (idb t)"
    by (simp_all add: updateAllCounts_eq [OF u'] readCount_def L')
  show "totalDocsCount (updateAllCounts s) = totalDocsCount (updateAllCounts t) + 1"
    using length_remove_key [OF distL memL, of "\<lambda>x. True"] by (simp add: cs ct)
  have srL: "\<forall>x\<in>set ?L. sizeRecorded x" unfolding L using sr by simp
  show "totalStorageUsed (updateAllCounts s) = Num (sum_list (map specSize ?L))"
    by (rule total_exact [OF u srL bound])
  have rest: "sum_list (map specSize (listAll (s_id u) (idb t))) + specSize d
                = sum_list (map specSize ?L)"
    unfolding L' by (rule sum_list_remove_key [OF distL memL])
  then show "specSize d \<le> sum_list (map specSize ?L)" by simp
  have srL': "\<forall>x\<in>set (listAll (s_id u) (idb t)). sizeRecorded x"
    unfolding L' using srL by simp
  have bound': "sum_list (map specSize (listAll (s_id u) (idb t))) \<le> 2 ^ 53"
    using rest bound by simp
  have "totalStorageUsed (updateAllCounts t)
          = Num (sum_list (map specSize (listAll (s_id u) (idb t))))"
    by (rule total_exact [OF u' srL' bound'])
  also have "sum_list (map specSize (listAll (s_id u) (idb t)))
               = sum_list (map specSize ?L) - specSize d"
    using rest by simp
  finally show "totalStorageUsed (updateAllCounts t)
                  = Num (sum_list (map specSize ?L) - specSize d)" .
  show "readCount (folderCounts (updateAllCounts s)) f
           = readCount (folderCounts (updateAllCounts t)) f
             + (if f = folder d \<and> f \<in> set enumeratedFolders then 1 else 0)"
    using length_remove_key [OF distL memL, of "\<lambda>x. folder x = f"]
    by (auto simp add: cs ct)
  show "docStore (idb (updateAllCounts t)) = filter (\<lambda>x. x \<noteq> d) (docStore (idb s))"
    unfolding ct del by (rule filter_key_eq [OF dist mem])
qed

lemma delete_store:
  assumes "user s = Some u"
    and "t = handleDeleteDocument True k s \<or> t = handleDeleteDocument_part0 True k s"
  shows "user t = Some u"
    and "docStore (idb t) = filter (\<lambda>x. d_id x \<noteq> k) (docStore (idb s))"
    and "userStore (idb t) = userStore (idb s)"
  using assms
  by (auto simp: handleDeleteDocument_def handleDeleteDocument_part0_def showMessage_def
      deleteItem_def)

text \<open>
  Claim C3, as the code has it. \<open>s\<close> is a state the handlers can produce: its store holds one
  record per key, each record lies in one of the three folders, and a \<^verbatim>\<open>fileSize\<close>, where
  there is one, is the byte length of the payload. A confirmed delete of a stored document \<open>d\<close>
  of the session user \<open>u\<close> (either variant of the handler) takes exactly \<open>d\<close> out of the
  documents store, of \<open>listAll u\<close> and of \<open>listByFolder u (folder d)\<close>, and leaves the users
  store alone. When the sizes of the documents of \<open>u\<close> sum to at most \<open>2 ^ 53\<close>, the aggregates
  recomputed afterwards differ from the ones before by: the total count, one less; the count
  of \<open>d\<close>'s folder, one less; every other count, the same; the total bytes, less by the size
  of \<open>d\<close> (its \<^verbatim>\<open>fileSize\<close>, or the byte length of its payload when it has none).
\<close>

theorem delete_updates_aggregates:
  assumes "keyOrdered (docStore (idb s))"
    and "\<forall>x\<in>set (docStore (idb s)). docWritten x"
    and "user s = Some u"
    and "d \<in> set (docStore (idb s))"
    and "userId d = s_id u"
    and "sum_list (map specSize (listAll (s_id u) (idb s))) \<le> 2 ^ 53"
    and "t = handleDeleteDocument True (d_id d) s \<or> t = handleDeleteDocument_part0 True (d_id d) s"
  shows "d_id d \<notin> d_id ` set (listAll (s_id u) (idb t))
         \<and> d_id d \<notin> d_id ` set (listByFolder (s_id u) (folder d) (idb t))
         \<and> listAll (s_id u) (idb t) = filter (\<lambda>x. x \<noteq> d) (listAll (s_id u) (idb s))
         \<and> listByFolder (s_id u) (folder d) (idb t)
             = filter (\<lambda>x. x \<noteq> d) (listByFolder (s_id u) (folder d) (idb s))
         \<and> docStore (idb t) = filter (\<lambda>x. x \<noteq> d) (docStore (idb s))
         \<and> userStore (idb t) = userStore (idb s)
         \<and> totalDocsCount (updateAllCounts s) = totalDocsCount (updateAllCounts t) + 1
         \<and> (\<forall>f. readCount (folderCounts (updateAllCounts s)) f
                  = readCount (folderCounts (updateAllCounts t)) f
                    + (if f = folder d then 1 else 0))
         \<and> totalStorageUsed (updateAllCounts s)
             = Num (sum_list (map specSize (listAll (s_id u) (idb s))))
         \<and> totalStorageUsed (updateAllCounts t)
             = Num (sum_list (map specSize (listAll (s_id u) (idb s))) - specSize d)
         \<and> specSize d \<le> sum_list (map specSize (listAll (s_id u) (idb s)))"
proof -
  note t = delete_store [OF assms(3) assms(7)]
  from assms(2) have sr: "\<forall>x\<in>set (docStore (idb s)). sizeRecorded x"
    by (simp add: docWritten_def)
  from assms(2,4) have fd: "folder d \<in> set enumeratedFolders" by (simp add: docWritten_def)
  note r = aggregates_after_removal [OF assms(1) sr assms(3-6) t(1,2)]
  have "docStore (idb t) = filter (\<lambda>x. x \<noteq> d) (docStore (idb s))"
    using r(10) by (simp add: updateAllCounts_eq [OF t(1)])
  moreover have "\<forall>f. readCount (folderCounts (updateAllCounts s)) f
                  = readCount (folderCounts (updateAllCounts t)) f
                    + (if f = folder d then 1 else 0)"
    using r(9) fd by auto
  ultimately show ?thesis using r(1-8) t(3) by blast
qed

theorem delete_updates_aggregates_witness:
  "keyOrdered (docStore (idb sampleApp))
   \<and> map sizeRecorded (docStore (idb sampleApp)) = [True, True, True]
   \<and> map folder (docStore (idb sampleApp)) = [''Pendidikan'', ''Pribadi'', ''Lainnya'']
   \<and> user sampleApp = Some \<lparr>s_id = ''ani@x.id'', s_email = ''ani@x.id''\<rparr>
   \<and> sampleDoc1 \<in> set (docStore (idb sampleApp))
   \<and> userId sampleDoc1 = ''ani@x.id''
   \<and> fileSize sampleDoc1 = Some 3
   \<and> sum_list (map specSize (listAll ''ani@x.id'' (idb sampleApp))) = 5
   \<and> listAll ''ani@x.id'' (idb (handleDeleteDocument True 1 sampleApp)) = [sampleDoc2]
   \<and> totalDocsCount (updateAllCounts sampleApp) = 2
   \<and> totalDocsCount (updateAllCounts (handleDeleteDocument True 1 sampleApp)) = 1
   \<and> readCount (folderCounts (updateAllCounts sampleApp)) ''Pendidikan''
       = readCount (folderCounts (updateAllCounts (handleDeleteDocument True 1 sampleApp)))
           ''Pendidikan'' + 1
   \<and> totalStorageUsed (updateAllCounts sampleApp) = Num 5
   \<and> totalStorageUsed (updateAllCounts (handleDeleteDocument True 1 sampleApp)) = Num 2"
proof -
  have w: "\<forall>x\<in>set (docStore (idb sampleApp)). docWritten x"
    using wellFormed_sample by (simp add: wellFormed_def)
  have st: "docStore (idb sampleApp) = [sampleDoc1, sampleDoc2, sampleDoc3]"
    by (simp add: sampleApp_def sampleDb_def)
  have e: "map sizeRecorded (docStore (idb sampleApp)) = [True, True, True]"
    "map folder (docStore (idb sampleApp)) = [''Pendidikan'', ''Pribadi'', ''Lainnya'']"
    unfolding st
    by (simp_all add: sizeRecorded_def byteLength_def sampleDoc1_def sampleDoc2_def
        sampleDoc3_def)
  have m: "sampleDoc1 \<in> set (docStore (idb sampleApp))" by (simp add: st)
  have own: "userId sampleDoc1 = s_id \<lparr>s_id = ''ani@x.id'', s_email = ''ani@x.id''\<rparr>"
    by (simp add: sampleDoc1_def)
  have k: "d_id sampleDoc1 = 1" "folder sampleDoc1 = ''Pendidikan''"
    "fileSize sampleDoc1 = Some 3" "sampleDoc2 \<noteq> sampleDoc1"
    by (simp_all add: sampleDoc1_def sampleDoc2_def)
  have b: "sum_list (map specSize (listAll ''ani@x.id'' (idb sampleApp))) = 5"
    by (simp add: sample_listAll sample_sizes)
  have b': "sum_list (map specSize
              (listAll (s_id \<lparr>s_id = ''ani@x.id'', s_email = ''ani@x.id''\<rparr>) (idb sampleApp)))
            \<le> 2 ^ 53"
    using b by simp
  have t: "handleDeleteDocument True 1 sampleApp = handleDeleteDocument True (d_id sampleDoc1) sampleApp
           \<or> handleDeleteDocument True 1 sampleApp
               = handleDeleteDocument_part0 True (d_id sampleDoc1) sampleApp"
    by (simp add: k)
  have c: "totalDocsCount (updateAllCounts sampleApp) = 2"
    by (simp add: updateAllCounts_eq [OF sample_user] sample_listAll)
  have "listAll ''ani@x.id'' (idb (handleDeleteDocument True 1 sampleApp)) = [sampleDoc2]
   \<and> totalDocsCount (updateAllCounts sampleApp) = 2
   \<and> totalDocsCount (updateAllCounts (handleDeleteDocument True 1 sampleApp)) = 1
   \<and> readCount (folderCounts (updateAllCounts sampleApp)) ''Pendidikan''
       = readCount (folderCounts (updateAllCounts (handleDeleteDocument True 1 sampleApp)))
           ''Pendidikan'' + 1
   \<and> totalStorageUsed (updateAllCounts sampleApp) = Num 5
   \<and> totalStorageUsed (updateAllCounts (handleDeleteDocument True 1 sampleApp)) = Num 2"
    using delete_updates_aggregates [OF sample_keyOrdered w sample_user m own b' t] k
    by (simp add: sample_listAll sample_sizes c)
  with e m k b sample_keyOrdered sample_user own show ?thesis by simp
qed

text \<open>
  Claim C3 as stated fails once the sizes sum past \<open>2 ^ 53\<close>. With the two uploaded files of
  \<open>2 ^ 53 - 1\<close> and 2 bytes the total is \<open>2 ^ 53\<close>; after the delete of the second one, whose
  \<^verbatim>\<open>fileSize\<close> is 2, the total is \<open>2 ^ 53 - 1\<close>: it went down by 1, and the claim predicts
  \<open>2 ^ 53 - 2\<close>.
\<close>

theorem delete_rounding_counterexample:
  "wellFormed hugeApp
   \<and> user hugeApp = Some \<lparr>s_id = ''ani@x.id'', s_email = ''ani@x.id''\<rparr>
   \<and> smallDoc \<in> set (docStore (idb hugeApp))
   \<and> userId smallDoc = ''ani@x.id''
   \<and> fileSize smallDoc = Some 2
   \<and> totalStorageUsed (updateAllCounts hugeApp) = Num 9007199254740992
   \<and> totalStorageUsed (updateAllCounts (handleDeleteDocument True (d_id smallDoc) hugeApp))
       = Num 9007199254740991
   \<and> totalStorageUsed (updateAllCounts (handleDeleteDocument_part0 True (d_id smallDoc) hugeApp))
       = Num 9007199254740991
   \<and> Num 9007199254740991 \<noteq> Num (9007199254740992 - 2)"
proof -
  let ?t1 = "handleDeleteDocument True (d_id smallDoc) hugeApp"
  let ?t2 = "handleDeleteDocument_part0 True (d_id smallDoc) hugeApp"
  have d: "smallDoc \<in> set (docStore (idb hugeApp))" "userId smallDoc = ''ani@x.id''"
    "fileSize smallDoc = Some 2"
    by (simp_all add: huge_store smallDoc_def)
  have ids: "d_id hugeDoc \<noteq> d_id smallDoc" "userId hugeDoc = ''ani@x.id''"
    by (simp_all add: hugeDoc_def smallDoc_def)
  note t1 = delete_store [OF huge_store(1), of ?t1 "d_id smallDoc"]
  note t2 = delete_store [OF huge_store(1), of ?t2 "d_id smallDoc"]
  have u1: "user ?t1 = Some \<lparr>s_id = ''ani@x.id'', s_email = ''ani@x.id''\<rparr>"
    and s1: "docStore (idb ?t1) = [hugeDoc]"
    using t1(1,2) ids by (simp_all add: huge_store)
  have u2: "user ?t2 = Some \<lparr>s_id = ''ani@x.id'', s_email = ''ani@x.id''\<rparr>"
    and s2: "docStore (idb ?t2) = [hugeDoc]"
    using t2(1,2) ids by (simp_all add: huge_store)
  have l: "listAll ''ani@x.id'' (idb ?t1) = [hugeDoc]" "listAll ''ani@x.id'' (idb ?t2) = [hugeDoc]"
    unfolding listAll_def getAllByUserId_def snd_conv s1 s2 using ids by simp_all
  have one: "addNumber (Num 0) 9007199254740991 = Num 9007199254740991"
    using addNumber_exact [of 0 9007199254740991] by simp
  have a: "totalStorageUsed (updateAllCounts ?t1) = Num 9007199254740991"
    "totalStorageUsed (updateAllCounts ?t2) = Num 9007199254740991"
    by (simp_all add: updateAllCounts_eq [OF u1] updateAllCounts_eq [OF u2] l huge_sizes one)
  from d a huge_wellFormed huge_store(1) huge_total show ?thesis by simp
qed

section \<open>The displayed documents\<close>

subsection \<open>Sorting with a comparator\<close>










subsection \<open>The comparators as orders on keys\<close>






subsection \<open>The search filter\<close>




subsection \<open>Filtered, then sorted\<close>


















section \<open>Formatting a byte count\<close>

text \<open>Below \<open>1024 ^ 5 - 3\<close> the index of the unit is the base-1024 logarithm rounded down:
  the unit is the largest of the five names of \<open>sizes\<close> not above the byte count, and the
  number printed is the count divided by the unit, rounded to the nearest hundredth and
  printed with at most two decimals. From \<open>1024 ^ 5 - 3\<close> on the index is past \<open>sizes\<close>.\<close>

lemma floorLog_bounds:
  assumes "2 \<le> k" and "0 < n"
  shows "k ^ floorLog k n \<le> n \<and> n < k ^ Suc (floorLog k n)"
  using assms
proof (induction k n rule: floorLog.induct)
  case (1 k n)
  show ?case
  proof (cases "n < k")
    case True
    with "1.prems" show ?thesis by (simp add: floorLog.simps [of k n])
  next
    case False
    with "1.prems" have q: "0 < n div k" by (simp add: div_greater_zero_iff)
    from False "1.prems" have ih:
      "k ^ floorLog k (n div k) \<le> n div k \<and> n div k < k ^ Suc (floorLog k (n div k))"
      using "1.IH" q by simp
    have fl: "floorLog k n = Suc (floorLog k (n div k))"
      using False "1.prems" by (simp add: floorLog.simps [of k n])
    have lo: "k ^ Suc (floorLog k (n div k)) \<le> n"
    proof -
      have "k * k ^ floorLog k (n div k) \<le> k * (n div k)" using ih by simp
      also have "\<dots> \<le> n" by simp
      finally show ?thesis by simp
    qed
    have hi: "n < k ^ Suc (Suc (floorLog k (n div k)))"
    proof -
      have "Suc (n div k) \<le> k ^ Suc (floorLog k (n div k))" using ih by simp
      then have "k * Suc (n div k) \<le> k * k ^ Suc (floorLog k (n div k))"
        by (rule mult_le_mono2)
      moreover have "n < k * Suc (n div k)"
        using "1.prems" by (simp add: dividend_less_times_div mult.commute)
      ultimately show ?thesis by simp
    qed
    from lo hi fl show ?thesis by simp
  qed
qed

lemma floorLog_less:
  assumes "2 \<le> k" and "0 < n" and "n < k ^ m"
  shows "floorLog k n < m"
proof (rule ccontr)
  assume "\<not> floorLog k n < m"
  then have "m \<le> floorLog k n" by simp
  then have "k ^ m \<le> k ^ floorLog k n" using assms(1) by (intro power_increasing) auto
  with floorLog_bounds [OF assms(1,2)] assms(3) show False by simp
qed

lemma floorLog_ge:
  assumes "2 \<le> k" and "k ^ m \<le> n"
  shows "m \<le> floorLog k n"
proof (rule ccontr)
  assume "\<not> m \<le> floorLog k n"
  then have "Suc (floorLog k n) \<le> m" by simp
  then have "k ^ Suc (floorLog k n) \<le> k ^ m" using assms(1) by (intro power_increasing) auto
  moreover have "0 < n" using assms by (cases n) auto
  ultimately show False using floorLog_bounds [OF assms(1), of n] assms(2) by simp
qed

lemma formatBytes_unit:
  assumes "0 < b"
  shows "formatBytes (Some b)
           = showHundredths (toFixed2 b (1024 ^ logQuotientFloor b)) @ '' ''
             @ sizeName (logQuotientFloor b)"
  using assms by (simp add: formatBytes_def Let_def)

lemma logQuotientFloor_in_range:
  assumes "0 < b" and "b < 1024 ^ 5 - 3"
  shows "logQuotientFloor b = floorLog 1024 b" and "logQuotientFloor b < 5"
    and "1024 ^ logQuotientFloor b \<le> b" and "b < 1024 ^ Suc (logQuotientFloor b)"
proof -
  from assms(2) have lt: "b < 1024 ^ 5" by simp
  show e: "logQuotientFloor b = floorLog 1024 b"
    using assms(2) by (simp add: logQuotientFloor_def)
  show "logQuotientFloor b < 5"
    unfolding e by (rule floorLog_less) (use assms(1) lt in simp_all)
  show "1024 ^ logQuotientFloor b \<le> b" "b < 1024 ^ Suc (logQuotientFloor b)"
    unfolding e using floorLog_bounds [of 1024 b] assms(1) by simp_all
qed

lemma formatBytes_in_range:
  assumes "0 < b" and "b < 1024 ^ 5 - 3"
  shows "formatBytes (Some b)
           = showHundredths (toFixed2 b (1024 ^ logQuotientFloor b)) @ '' ''
             @ sizes ! logQuotientFloor b"
  using logQuotientFloor_in_range(2) [OF assms]
  by (simp add: formatBytes_unit [OF assms(1)] sizeName_def sizes_def)

lemma logQuotientFloor_past_sizes:
  assumes "1024 ^ 5 - 3 \<le> b"
  shows "5 \<le> logQuotientFloor b"
proof (cases "b < 1024 ^ 5")
  case True
  with assms show ?thesis by (simp add: logQuotientFloor_def)
next
  case False
  then have "5 \<le> floorLog 1024 b" by (intro floorLog_ge) simp_all
  with False show ?thesis by (simp add: logQuotientFloor_def)
qed

lemma formatBytes_past_sizes:
  assumes "1024 ^ 5 - 3 \<le> b"
  shows "formatBytes (Some b)
           = showHundredths (toFixed2 b (1024 ^ logQuotientFloor b)) @ '' undefined''"
proof -
  have "0 < b" using assms by (cases b) auto
  with logQuotientFloor_past_sizes [OF assms] show ?thesis
    by (simp add: formatBytes_unit sizeName_def sizes_def)
qed

lemma toFixed2_nearest:
  assumes "0 < p"
  shows "2 * p * toFixed2 b p \<le> 200 * b + p" and "200 * b + p < 2 * p * (toFixed2 b p + 1)"
proof -
  show "2 * p * toFixed2 b p \<le> 200 * b + p"
    unfolding toFixed2_def by simp
  show "200 * b + p < 2 * p * (toFixed2 b p + 1)"
    unfolding toFixed2_def using assms dividend_less_times_div [of "2 * p" "200 * b + p"]
    by (simp add: mult.commute)
qed

lemma showHundredths_two_decimals:
  "\<exists>frac. showHundredths h = showNat (h div 100) @ frac
          \<and> (frac = [] \<or> (\<exists>f. frac = CHR ''.'' # f \<and> length f \<le> 2))"
  by (simp add: showHundredths_def Let_def)

lemma formatBytes_examples:
  "formatBytes None = ''0 Bytes''"
  "formatBytes (Some 0) = ''0 Bytes''"
  "formatBytes (Some 1536) = ''1.5 KB''"
  "formatBytes (Some 1048576) = ''1 MB''"
proof -
  show "formatBytes None = ''0 Bytes''" "formatBytes (Some 0) = ''0 Bytes''"
    by (simp_all add: formatBytes_def)
  have l: "logQuotientFloor 1536 = 1" "logQuotientFloor 1048576 = 2"
    by (simp_all add: logQuotientFloor_def floorLog.simps)
  have f: "toFixed2 1536 (1024 ^ 1) = 150" "toFixed2 1048576 (1024 ^ 2) = 100"
    by (simp_all add: toFixed2_def)
  have u: "formatBytes (Some 1536)
             = showHundredths (toFixed2 1536 (1024 ^ logQuotientFloor 1536)) @ '' ''
               @ sizeName (logQuotientFloor 1536)"
    "formatBytes (Some 1048576)
             = showHundredths (toFixed2 1048576 (1024 ^ logQuotientFloor 1048576)) @ '' ''
               @ sizeName (logQuotientFloor 1048576)"
    by (rule formatBytes_unit, simp)+
  have s: "showHundredths 150 = ''1.5''" "showHundredths 100 = ''1''"
    by (simp_all add: showHundredths_def Let_def showNat.simps digit_def)
  show "formatBytes (Some 1536) = ''1.5 KB''"
    unfolding u(1) l f s by (simp add: sizeName_def sizes_def)
  show "formatBytes (Some 1048576) = ''1 MB''"
    unfolding u(2) l f s by (simp add: sizeName_def sizes_def)
qed

text \<open>The last byte count below \<open>1024 ^ 5\<close> already has no unit.\<close>

lemma formatBytes_just_below:
  "formatBytes (Some 1125899906842623) = ''1 undefined''"
proof -
  have l: "logQuotientFloor 1125899906842623 = 5"
    by (simp add: logQuotientFloor_def)
  have f: "toFixed2 1125899906842623 (1024 ^ 5) = 100"
    by (simp add: toFixed2_def)
  have s: "showHundredths 100 = ''1''"
    by (simp add: showHundredths_def Let_def showNat.simps digit_def)
  have u: "formatBytes (Some 1125899906842623)
             = showHundredths (toFixed2 1125899906842623 (1024 ^ logQuotientFloor 1125899906842623))
               @ '' '' @ sizeName (logQuotientFloor 1125899906842623)"
    by (rule formatBytes_unit) simp
  show ?thesis
    unfolding u l f s by (simp add: sizeName_def sizes_def)
qed

text \<open>
  Claim C6. \<^verbatim>\<open>formatBytes\<close> does not select one of Bytes, KB, MB, GB, TB for every byte
  count: from \<open>1024 ^ 5 - 3\<close> on the index runs past \<open>sizes\<close> (lemma
  \<open>formatBytes_past_sizes\<close>). For \<open>3 * 1024 ^ 5\<close> bytes the result is the number 3 followed
  by \<^verbatim>\<open>undefined\<close>. Below \<open>1024 ^ 5 - 3\<close> the claim holds (lemmas \<open>formatBytes_in_range\<close>,
  \<open>logQuotientFloor_in_range\<close>, \<open>toFixed2_nearest\<close>, \<open>showHundredths_two_decimals\<close>), and so
  do its four examples (\<open>formatBytes_examples\<close>).
\<close>

theorem formatBytes_beyond_units:
  "formatBytes (Some 3377699720527872) = ''3 undefined''"
proof -
  have l: "logQuotientFloor 3377699720527872 = 5"
    by (simp add: logQuotientFloor_def floorLog.simps)
  have f: "toFixed2 3377699720527872 (1024 ^ 5) = 300"
    by (simp add: toFixed2_def)
  have s: "showHundredths 300 = ''3''"
    by (simp add: showHundredths_def Let_def showNat.simps digit_def)
  have u: "formatBytes (Some 3377699720527872)
             = showHundredths
                 (toFixed2 3377699720527872 (1024 ^ logQuotientFloor 3377699720527872))
               @ '' '' @ sizeName (logQuotientFloor 3377699720527872)"
    by (rule formatBytes_unit) simp
  show ?thesis
    unfolding u l f s by (simp add: sizeName_def sizes_def)
qed

end
